theory Spec2Isabelle
  imports Main
begin

section \<open>Qt value types used by the thumbnail provider\<close>

text \<open>
  A \<open>QString\<close> is modelled as a list of bytes (its UTF-8 encoding), a \<open>QImage\<close> as either
  the null image or a pixel buffer with its dimensions, a \<open>QSize\<close> as a pair of ints.
\<close>

type_synonym qstring = string

datatype qimage = QImage_null | QImage_pixels nat nat "nat list"

definition isNull :: "qimage \<Rightarrow> bool" where
  "isNull img = (img = QImage_null)"

record qsize =
  size_width :: int
  size_height :: int

text \<open>\<open>QSize::isValid\<close>: both the width and the height are at least 0.\<close>

definition isValid :: "qsize \<Rightarrow> bool" where
  "isValid s = (0 \<le> size_width s \<and> 0 \<le> size_height s)"

text \<open>\<open>QImage::size\<close>: the dimensions of the pixel buffer, 0 by 0 for the null image.\<close>

fun imageSize :: "qimage \<Rightarrow> qsize" where
  "imageSize QImage_null = \<lparr>size_width = 0, size_height = 0\<rparr>"
| "imageSize (QImage_pixels w h bits) = \<lparr>size_width = int w, size_height = int h\<rparr>"

section \<open>The image cache: \<open>QCache<QString, QImage>\<close>\<close>

text \<open>
  \<open>QCache\<close> is Qt's cost-bounded cache with least-recently-used eviction; it is library
  code, modelled here as Qt 6 documents and implements it. The provider only ever inserts
  with the default cost 1, so the total cost is the number of entries. \<open>chain\<close> is the
  recency chain, most recently used entry first; \<open>mx\<close> is \<open>maxCost\<close>.
\<close>

record qcache =
  mx :: int
  chain :: "(qstring \<times> qimage) list"

text \<open>\<open>QCache::trim(m)\<close>: while the chain is not empty and the total exceeds \<open>m\<close>, unlink
  the entry at the tail of the chain.\<close>

function trim_chain :: "int \<Rightarrow> (qstring \<times> qimage) list \<Rightarrow> (qstring \<times> qimage) list" where
  "trim_chain m xs =
     (if xs \<noteq> [] \<and> m < int (length xs) then trim_chain m (butlast xs) else xs)"
  by pat_completeness auto
termination
  by (relation "measure (\<lambda>(m, xs). length xs)") auto

declare trim_chain.simps [simp del]

definition qcache_trim :: "int \<Rightarrow> qcache \<Rightarrow> qcache" where
  "qcache_trim m c = c\<lparr>chain := trim_chain m (chain c)\<rparr>"

definition unlink_key :: "qstring \<Rightarrow> (qstring \<times> qimage) list \<Rightarrow> (qstring \<times> qimage) list" where
  "unlink_key key xs = filter (\<lambda>e. fst e \<noteq> key) xs"

definition qcache_remove :: "qstring \<Rightarrow> qcache \<Rightarrow> qcache" where
  "qcache_remove key c = c\<lparr>chain := unlink_key key (chain c)\<rparr>"

definition qcache_contains :: "qstring \<Rightarrow> qcache \<Rightarrow> bool" where
  "qcache_contains key c = (map_of (chain c) key \<noteq> None)"

text \<open>\<open>QCache::object(key)\<close>: a hit relinks the entry to the head of the chain and returns
  the object; a miss returns the null pointer and leaves the cache alone.\<close>

definition qcache_object :: "qstring \<Rightarrow> qcache \<Rightarrow> qimage option \<times> qcache" where
  "qcache_object key c =
     (case map_of (chain c) key of
        None \<Rightarrow> (None, c)
      | Some obj \<Rightarrow> (Some obj, c\<lparr>chain := (key, obj) # unlink_key key (chain c)\<rparr>))"

text \<open>\<open>QCache::insert(key, object)\<close> with cost 1: an object dearer than \<open>maxCost\<close> is
  deleted at once (and the key removed); otherwise the cache is trimmed to \<open>maxCost - 1\<close>
  and the entry is put at the head of the chain, replacing an entry of the same key.\<close>

definition qcache_insert :: "qstring \<Rightarrow> qimage \<Rightarrow> qcache \<Rightarrow> bool \<times> qcache" where
  "qcache_insert key obj c =
     (if mx c < 1 then (False, qcache_remove key c)
      else let c1 = qcache_trim (mx c - 1) c
           in (True, c1\<lparr>chain := (key, obj) # unlink_key key (chain c1)\<rparr>))"

definition qcache_clear :: "qcache \<Rightarrow> qcache" where
  "qcache_clear c = c\<lparr>chain := []\<rparr>"

definition qcache_setMaxCost :: "int \<Rightarrow> qcache \<Rightarrow> qcache" where
  "qcache_setMaxCost m c = qcache_trim m (c\<lparr>mx := m\<rparr>)"

section \<open>Provider and response state\<close>

text \<open>The fields of a \<open>ThumbnailResponse\<close> object (the provider pointer is implicit).\<close>

record thumbnail_response =
  m_fileHash :: qstring
  m_filePath :: qstring
  m_size :: qstring
  m_requestedSize :: qsize
  m_image :: qimage
  m_errorString :: qstring
  m_finished :: bool

text \<open>One element of the JSON array handed to \<open>RustBridge::enqueueThumbnailsBatch\<close>.\<close>

record thumb_request =
  req_filePath :: qstring
  req_fileHash :: qstring
  req_size :: qstring

text \<open>
  The state the code works on: the provider's two members, the live \<open>ThumbnailResponse\<close>
  objects by address, the batches passed to \<open>RustBridge::enqueueThumbnailsBatch\<close> in call
  order, and the addresses whose \<open>finished()\<close> signal was emitted, in order.
  A \<open>QSet<ThumbnailResponse*>\<close> is a duplicate-free list of addresses; the list order
  stands for the set's unspecified iteration order. Each member function runs to its end
  before the next call starts: the two mutexes and the threads are not modelled.
\<close>

record world =
  m_imageCache :: qcache
  m_pendingRequests :: "qstring \<rightharpoonup> nat list"
  heap :: "nat \<rightharpoonup> thumbnail_response"
  enqueued :: "thumb_request list list"
  finished_signals :: "nat list"

text \<open>
  The collaborators the code calls and whose code is outside the repository:
  \<open>RustBridge::getThumbnailPath\<close> (empty string when nothing is cached),
  \<open>QFile::exists\<close>, \<open>QImageReader\<close> (constructed on a path with auto-transform on, an
  optional scaled size set, then \<open>read()\<close> and \<open>errorString()\<close>),
  \<open>QByteArray::fromBase64\<close> on the Latin-1 bytes, and \<open>QImage::loadFromData\<close> (the
  loaded image, null when loading fails).
\<close>

record env =
  getThumbnailPath :: "qstring \<Rightarrow> qstring \<Rightarrow> qstring"
  fileExists :: "qstring \<Rightarrow> bool"
  readImage :: "qstring \<Rightarrow> qsize option \<Rightarrow> qimage \<times> qstring"
  fromBase64 :: "qstring \<Rightarrow> qstring"
  loadFromData :: "qstring \<Rightarrow> qimage"

definition DEFAULT_CACHE_SIZE :: int where
  "DEFAULT_CACHE_SIZE = 200"

definition ThumbnailProvider_init :: world where
  "ThumbnailProvider_init =
     \<lparr>m_imageCache = \<lparr>mx = DEFAULT_CACHE_SIZE, chain = []\<rparr>,
      m_pendingRequests = Map.empty,
      heap = Map.empty,
      enqueued = [],
      finished_signals = []\<rparr>"

subsection \<open>Cache management\<close>

definition clearCache :: "world \<Rightarrow> world" where
  "clearCache w = w\<lparr>m_imageCache := qcache_clear (m_imageCache w)\<rparr>"

definition setCacheSize :: "int \<Rightarrow> world \<Rightarrow> world" where
  "setCacheSize maxImages w = w\<lparr>m_imageCache := qcache_setMaxCost maxImages (m_imageCache w)\<rparr>"

definition cacheImage :: "qstring \<Rightarrow> qimage \<Rightarrow> world \<Rightarrow> world" where
  "cacheImage key img w = w\<lparr>m_imageCache := snd (qcache_insert key img (m_imageCache w))\<rparr>"

definition getCachedImage :: "qstring \<Rightarrow> world \<Rightarrow> qimage \<times> world" where
  "getCachedImage key w =
     (let (cached, c) = qcache_object key (m_imageCache w)
      in (case cached of Some img \<Rightarrow> img | None \<Rightarrow> QImage_null, w\<lparr>m_imageCache := c\<rparr>))"

definition hasCachedImage :: "qstring \<Rightarrow> world \<Rightarrow> bool" where
  "hasCachedImage key w = qcache_contains key (m_imageCache w)"

subsection \<open>The pending-request registry\<close>

text \<open>\<open>QSet::insert\<close> and \<open>QSet::remove\<close> on the list that stands for the set.\<close>

definition qset_insert :: "nat \<Rightarrow> nat list \<Rightarrow> nat list" where
  "qset_insert r s = (if r \<in> set s then s else s @ [r])"

definition qset_remove :: "nat \<Rightarrow> nat list \<Rightarrow> nat list" where
  "qset_remove r s = removeAll r s"

text \<open>\<open>m_pendingRequests[fileHash].insert(response)\<close>: \<open>operator[]\<close> creates an empty
  set for a hash that has none.\<close>

definition addPendingRequest :: "qstring \<Rightarrow> nat \<Rightarrow> world \<Rightarrow> world" where
  "addPendingRequest fileHash response w =
     (let s = (case m_pendingRequests w fileHash of None \<Rightarrow> [] | Some s \<Rightarrow> s)
      in w\<lparr>m_pendingRequests := (m_pendingRequests w)(fileHash \<mapsto> qset_insert response s)\<rparr>)"

definition removePendingRequest :: "qstring \<Rightarrow> nat \<Rightarrow> world \<Rightarrow> world" where
  "removePendingRequest fileHash response w =
     (case m_pendingRequests w fileHash of
        None \<Rightarrow> w
      | Some s \<Rightarrow>
          (let s' = qset_remove response s
           in if s' = [] then w\<lparr>m_pendingRequests := (m_pendingRequests w)(fileHash := None)\<rparr>
              else w\<lparr>m_pendingRequests := (m_pendingRequests w)(fileHash \<mapsto> s')\<rparr>))"

section \<open>\<open>ThumbnailResponse\<close>\<close>

text \<open>
  Every member function takes the address \<open>this\<close> of the object it is called on. Calling
  one on an address that holds no object is undefined in C++; the model leaves the state
  as it is there.
\<close>

definition cacheKeyOf :: "qstring \<Rightarrow> qstring \<Rightarrow> qstring" where
  "cacheKeyOf fileHash sz = fileHash @ ''/'' @ sz"

definition finishWithImage :: "nat \<Rightarrow> qimage \<Rightarrow> world \<Rightarrow> world" where
  "finishWithImage this img w =
     (case heap w this of
        None \<Rightarrow> w
      | Some r \<Rightarrow>
          (let w1 = w\<lparr>heap := (heap w)(this \<mapsto> r\<lparr>m_image := img, m_finished := True\<rparr>)\<rparr>;
               cacheKey = cacheKeyOf (m_fileHash r) (m_size r);
               w2 = cacheImage cacheKey img w1;
               w3 = removePendingRequest (m_fileHash r) this w2
           in w3\<lparr>finished_signals := finished_signals w3 @ [this]\<rparr>))"

definition finishWithError :: "nat \<Rightarrow> qstring \<Rightarrow> world \<Rightarrow> world" where
  "finishWithError this error w =
     (case heap w this of
        None \<Rightarrow> w
      | Some r \<Rightarrow>
          (let w1 = w\<lparr>heap := (heap w)(this \<mapsto> r\<lparr>m_errorString := error, m_finished := True\<rparr>)\<rparr>;
               w2 = removePendingRequest (m_fileHash r) this w1
           in w2\<lparr>finished_signals := finished_signals w2 @ [this]\<rparr>))"

definition loadFromPath :: "env \<Rightarrow> nat \<Rightarrow> qstring \<Rightarrow> world \<Rightarrow> world" where
  "loadFromPath e this path w =
     (case heap w this of
        None \<Rightarrow> w
      | Some r \<Rightarrow>
          (let scaled = (if isValid (m_requestedSize r) then Some (m_requestedSize r) else None);
               (img, errorString) = readImage e path scaled
           in if isNull img then finishWithError this errorString w
              else finishWithImage this img w))"

definition loadFromBase64 :: "env \<Rightarrow> nat \<Rightarrow> qstring \<Rightarrow> world \<Rightarrow> world" where
  "loadFromBase64 e this base64 w =
     (let data = fromBase64 e base64;
          img = loadFromData e data
      in if \<not> isNull img then finishWithImage this img w
         else finishWithError this ''Failed to decode base64 image'' w)"

definition handleThumbnailReady ::
  "env \<Rightarrow> nat \<Rightarrow> qstring \<Rightarrow> bool \<Rightarrow> qstring \<Rightarrow> bool \<Rightarrow> world \<Rightarrow> world" where
  "handleThumbnailReady e this path isPlaceholder placeholderBase64 useOriginal w =
     (case heap w this of
        None \<Rightarrow> w
      | Some r \<Rightarrow>
          if m_finished r then w
          else if isPlaceholder \<and> placeholderBase64 \<noteq> [] then loadFromBase64 e this placeholderBase64 w
          else if path \<noteq> [] then loadFromPath e this path w
          else finishWithError this ''No thumbnail available'' w)"

definition onThumbnailReady ::
  "env \<Rightarrow> nat \<Rightarrow> qstring \<Rightarrow> qstring \<Rightarrow> qstring \<Rightarrow> bool \<Rightarrow> qstring \<Rightarrow> bool \<Rightarrow> world \<Rightarrow> world" where
  "onThumbnailReady e this fileHash sz path isPlaceholder placeholderBase64 useOriginal w =
     (case heap w this of
        None \<Rightarrow> w
      | Some r \<Rightarrow>
          if fileHash \<noteq> m_fileHash r \<or> sz \<noteq> m_size r then w
          else handleThumbnailReady e this path isPlaceholder placeholderBase64 useOriginal w)"

text \<open>The constructor, run on the freshly allocated object at \<open>this\<close>.\<close>

definition ThumbnailResponse_new ::
  "env \<Rightarrow> nat \<Rightarrow> qstring \<Rightarrow> qstring \<Rightarrow> qstring \<Rightarrow> qsize \<Rightarrow> world \<Rightarrow> world" where
  "ThumbnailResponse_new e this fileHash filePath sz requestedSize w =
     (let r = \<lparr>m_fileHash = fileHash, m_filePath = filePath, m_size = sz,
                m_requestedSize = requestedSize, m_image = QImage_null,
                m_errorString = [], m_finished = False\<rparr>;
          w0 = w\<lparr>heap := (heap w)(this \<mapsto> r)\<rparr>;
          cacheKey = cacheKeyOf fileHash sz
      in if hasCachedImage cacheKey w0 then
           (let (img, w1) = getCachedImage cacheKey w0;
                w2 = w1\<lparr>heap := (heap w1)(this \<mapsto> r\<lparr>m_image := img, m_finished := True\<rparr>)\<rparr>
            in w2\<lparr>finished_signals := finished_signals w2 @ [this]\<rparr>)
         else
           (let path = getThumbnailPath e fileHash sz
            in if path \<noteq> [] \<and> fileExists e path then loadFromPath e this path w0
               else if filePath = [] then
                 finishWithError this ''Missing file path for thumbnail request'' w0
               else
                 (let w1 = addPendingRequest fileHash this w0;
                      requests = [\<lparr>req_filePath = filePath, req_fileHash = fileHash,
                                   req_size = sz\<rparr>]
                  in w1\<lparr>enqueued := enqueued w1 @ [requests]\<rparr>)))"

text \<open>The destructor, after which the object at \<open>this\<close> is gone.\<close>

definition ThumbnailResponse_delete :: "nat \<Rightarrow> world \<Rightarrow> world" where
  "ThumbnailResponse_delete this w =
     (case heap w this of
        None \<Rightarrow> w
      | Some r \<Rightarrow>
          (let w1 = (if \<not> m_finished r then removePendingRequest (m_fileHash r) this w else w)
           in w1\<lparr>heap := (heap w1)(this := None)\<rparr>))"

section \<open>\<open>ThumbnailProvider\<close>: completion routing and request parsing\<close>

definition notifyThumbnailReady ::
  "env \<Rightarrow> qstring \<Rightarrow> qstring \<Rightarrow> qstring \<Rightarrow> bool \<Rightarrow> qstring \<Rightarrow> bool \<Rightarrow> world \<Rightarrow> world" where
  "notifyThumbnailReady e fileHash sz path isPlaceholder placeholderBase64 useOriginal w =
     (case m_pendingRequests w fileHash of
        None \<Rightarrow> w
      | Some responses \<Rightarrow>
          foldl (\<lambda>w' response.
                   handleThumbnailReady e response path isPlaceholder placeholderBase64 useOriginal w')
                (w\<lparr>m_pendingRequests := (m_pendingRequests w)(fileHash := None)\<rparr>)
                responses)"

text \<open>\<open>QString::split(sep)\<close> keeping empty parts, \<open>QList::value(i, default)\<close> and
  \<open>QString::indexOf(ch)\<close> (\<open>-1\<close> when the character does not occur).\<close>

fun split_char :: "char \<Rightarrow> qstring \<Rightarrow> qstring list" where
  "split_char sep [] = [[]]"
| "split_char sep (x # xs) =
     (if x = sep then [] # split_char sep xs
      else (case split_char sep xs of
              [] \<Rightarrow> [[x]]
            | p # ps \<Rightarrow> (x # p) # ps))"

definition value_at :: "qstring list \<Rightarrow> nat \<Rightarrow> qstring \<Rightarrow> qstring" where
  "value_at xs i d = (if i < length xs then xs ! i else d)"

fun indexOf :: "char \<Rightarrow> qstring \<Rightarrow> int" where
  "indexOf ch [] = - 1"
| "indexOf ch (x # xs) =
     (if x = ch then 0
      else (let i = indexOf ch xs in if i < 0 then - 1 else i + 1))"

text \<open>
  \<open>QUrl::toPercentEncoding\<close> with no exclusions (the form \<open>PhotoModel\<close> builds the request
  id with) and \<open>QUrl::fromPercentEncoding\<close>, on UTF-8 bytes: every byte other than an
  ASCII letter, a digit, \<open>-\<close>, \<open>.\<close>, \<open>_\<close> or \<open>~\<close> is written as \<open>%\<close> and two upper-case hex
  digits; decoding replaces a \<open>%\<close> that has two characters after it by the byte they
  denote and copies every other character.
\<close>

definition unreserved :: "char \<Rightarrow> bool" where
  "unreserved c =
     (let n = (of_char c :: nat)
      in (97 \<le> n \<and> n \<le> 122) \<or> (65 \<le> n \<and> n \<le> 90) \<or> (48 \<le> n \<and> n \<le> 57)
         \<or> n = 45 \<or> n = 46 \<or> n = 95 \<or> n = 126)"

definition toHexUpper :: "nat \<Rightarrow> char" where
  "toHexUpper v = ''0123456789ABCDEF'' ! (v mod 16)"

definition toPercentEncoding :: "qstring \<Rightarrow> qstring" where
  "toPercentEncoding s =
     concat (map (\<lambda>c. if unreserved c then [c]
                       else [CHR ''%'', toHexUpper (of_char c div 16), toHexUpper (of_char c mod 16)]) s)"

definition hexValue :: "char \<Rightarrow> nat" where
  "hexValue c =
     (let n = (of_char c :: nat)
      in if 48 \<le> n \<and> n \<le> 57 then n - 48
         else if 97 \<le> n \<and> n \<le> 102 then n - 97 + 10
         else if 65 \<le> n \<and> n \<le> 70 then n - 65 + 10
         else n)"

fun fromPercentEncoding :: "qstring \<Rightarrow> qstring" where
  "fromPercentEncoding (c # a # b # rest) =
     (if c = CHR ''%'' then char_of (or (push_bit 4 (hexValue a)) (hexValue b)) # fromPercentEncoding rest
      else c # fromPercentEncoding (a # b # rest))"
| "fromPercentEncoding (c # rest) = c # fromPercentEncoding rest"
| "fromPercentEncoding [] = []"

text \<open>The parsing part of \<open>requestImageResponse\<close>: the hash, the file path and the size
  class that the constructor is called with.\<close>

definition parse_request_id :: "qstring \<Rightarrow> qstring \<times> qstring \<times> qstring" where
  "parse_request_id ident =
     (let parts = split_char CHR ''/'' ident;
          hashPart = value_at parts 0 [];
          sz = value_at parts 1 ''medium'';
          separator = indexOf CHR ''|'' hashPart
      in if separator \<ge> 0 then
           (take (nat separator) hashPart,
            fromPercentEncoding (drop (nat (separator + 1)) hashPart), sz)
         else (hashPart, [], sz))"

text \<open>\<open>new ThumbnailResponse(...)\<close> puts the object at an address \<open>this\<close> that holds no
  live object; the address is the handle returned to the caller.\<close>

definition requestImageResponse :: "env \<Rightarrow> nat \<Rightarrow> qstring \<Rightarrow> qsize \<Rightarrow> world \<Rightarrow> world" where
  "requestImageResponse e this ident requestedSize w =
     (let (hashPart, filePath, sz) = parse_request_id ident
      in ThumbnailResponse_new e this hashPart filePath sz requestedSize w)"

section \<open>Runs of the provider\<close>

text \<open>
  The calls the rest of the program makes on the provider and its responses. A request
  is allocated at an address that is free, and only a live response is destroyed.
\<close>

datatype call =
    RequestImageResponse nat qstring qsize
  | DeleteResponse nat
  | NotifyThumbnailReady qstring qstring qstring bool qstring bool
  | ClearCache
  | SetCacheSize int
  | CacheImage qstring qimage
  | GetCachedImage qstring

fun step :: "env \<Rightarrow> call \<Rightarrow> world \<Rightarrow> world" where
  "step e (RequestImageResponse this ident requestedSize) w =
     (if heap w this = None then requestImageResponse e this ident requestedSize w else w)"
| "step e (DeleteResponse this) w = ThumbnailResponse_delete this w"
| "step e (NotifyThumbnailReady fileHash sz path isPlaceholder placeholderBase64 useOriginal) w =
     notifyThumbnailReady e fileHash sz path isPlaceholder placeholderBase64 useOriginal w"
| "step e ClearCache w = clearCache w"
| "step e (SetCacheSize maxImages) w = setCacheSize maxImages w"
| "step e (CacheImage key img) w = cacheImage key img w"
| "step e (GetCachedImage key) w = snd (getCachedImage key w)"

definition run :: "env \<Rightarrow> call list \<Rightarrow> world \<Rightarrow> world" where
  "run e calls w = foldl (\<lambda>w' c. step e c w') w calls"

section \<open>Notions used in the statements\<close>

text \<open>The number of cached images, the capacity of the cache, and its contents as a map
  from keys to images.\<close>

definition cache_count :: "world \<Rightarrow> nat" where
  "cache_count w = length (chain (m_imageCache w))"

definition cache_capacity :: "world \<Rightarrow> int" where
  "cache_capacity w = mx (m_imageCache w)"

definition cached :: "world \<Rightarrow> qstring \<rightharpoonup> qimage" where
  "cached w = map_of (chain (m_imageCache w))"

text \<open>The cache holds no more entries than its capacity allows (none for a capacity
  below 1).\<close>

definition cache_bounded :: "qcache \<Rightarrow> bool" where
  "cache_bounded c = (int (length (chain c)) \<le> max 0 (mx c))"

definition cache_inv :: "world \<Rightarrow> bool" where
  "cache_inv w = cache_bounded (m_imageCache w)"

text \<open>\<open>cacheImage\<close> called for each key and image of a list, in order.\<close>

definition insert_all :: "(qstring \<times> qimage) list \<Rightarrow> world \<Rightarrow> world" where
  "insert_all kvs w = foldl (\<lambda>w' (k, img). cacheImage k img w') w kvs"

text \<open>Well-formed registry: no empty waiter set, no duplicates, and every waiter is a
  live, unfinished response filed under its own hash.\<close>

definition registry_ok :: "world \<Rightarrow> bool" where
  "registry_ok w =
     (\<forall>h s. m_pendingRequests w h = Some s \<longrightarrow>
        s \<noteq> [] \<and> distinct s \<and>
        (\<forall>r \<in> set s. \<exists>resp. heap w r = Some resp \<and> \<not> m_finished resp \<and> m_fileHash resp = h))"

text \<open>The waiters filed under a hash, as a set.\<close>

definition waiters :: "world \<Rightarrow> qstring \<Rightarrow> nat set" where
  "waiters w h = (case m_pendingRequests w h of None \<Rightarrow> {} | Some s \<Rightarrow> set s)"

text \<open>A response that is not finished holds no image yet.\<close>

definition responses_ok :: "world \<Rightarrow> bool" where
  "responses_ok w = (\<forall>a r. heap w a = Some r \<longrightarrow> \<not> m_finished r \<longrightarrow> isNull (m_image r))"

text \<open>The common effect of \<open>finishWithImage\<close> and \<open>finishWithError\<close> on the object, the
  registry and the logs: the response at \<open>this\<close> ends finished, leaves the waiter set of its
  hash, and emits \<open>finished()\<close> once.\<close>

definition finishes :: "nat \<Rightarrow> world \<Rightarrow> world \<Rightarrow> bool" where
  "finishes this w w' =
     (\<exists>r. heap w this = Some r \<and>
        (\<exists>r'. heap w' this = Some r' \<and> m_finished r') \<and>
        (\<forall>x. x \<noteq> this \<longrightarrow> heap w' x = heap w x) \<and>
        m_pendingRequests w' = m_pendingRequests (removePendingRequest (m_fileHash r) this w) \<and>
        enqueued w' = enqueued w \<and>
        finished_signals w' = finished_signals w @ [this])"

text \<open>A response is delivered when it is finished and holds an image.\<close>

definition delivered :: "world \<Rightarrow> nat \<Rightarrow> bool" where
  "delivered w this = (\<exists>r. heap w this = Some r \<and> m_finished r \<and> \<not> isNull (m_image r))"

text \<open>The fields of a response right after the member initialisers of the constructor.\<close>

definition new_response :: "qstring \<Rightarrow> qstring \<Rightarrow> qstring \<Rightarrow> qsize \<Rightarrow> thumbnail_response" where
  "new_response fileHash filePath sz requestedSize =
     \<lparr>m_fileHash = fileHash, m_filePath = filePath, m_size = sz,
      m_requestedSize = requestedSize, m_image = QImage_null,
      m_errorString = [], m_finished = False\<rparr>"

text \<open>The response object after \<open>loadFromPath\<close>: what the reader returned for the path and
  the scaled size, stored as the image, or its error string when the image is null.\<close>

definition read_outcome :: "env \<Rightarrow> qstring \<Rightarrow> qsize option \<Rightarrow> thumbnail_response \<Rightarrow> thumbnail_response" where
  "read_outcome e path scaled r =
     (let (img, errorString) = readImage e path scaled
      in if isNull img then r\<lparr>m_errorString := errorString, m_finished := True\<rparr>
         else r\<lparr>m_image := img, m_finished := True\<rparr>)"

text \<open>The response object after \<open>loadFromBase64\<close>.\<close>

definition placeholder_outcome :: "env \<Rightarrow> qstring \<Rightarrow> thumbnail_response \<Rightarrow> thumbnail_response" where
  "placeholder_outcome e base64 r =
     (if isNull (loadFromData e (fromBase64 e base64))
      then r\<lparr>m_errorString := ''Failed to decode base64 image'', m_finished := True\<rparr>
      else r\<lparr>m_image := loadFromData e (fromBase64 e base64), m_finished := True\<rparr>)"

text \<open>The response object after \<open>handleThumbnailReady\<close> on an unfinished response.\<close>

definition completion_outcome ::
  "env \<Rightarrow> qstring \<Rightarrow> bool \<Rightarrow> qstring \<Rightarrow> thumbnail_response \<Rightarrow> thumbnail_response" where
  "completion_outcome e path isPlaceholder placeholderBase64 r =
     (if isPlaceholder \<and> placeholderBase64 \<noteq> [] then placeholder_outcome e placeholderBase64 r
      else if path \<noteq> [] then
        read_outcome e path
          (if isValid (m_requestedSize r) then Some (m_requestedSize r) else None) r
      else r\<lparr>m_errorString := ''No thumbnail available'', m_finished := True\<rparr>)"

text \<open>
  What \<open>QImageReader\<close> documents for \<open>setScaledSize\<close>: an image read after a valid
  scaled size was set has exactly that size, whatever the natural size of the source.
\<close>

definition honours_scaled_size :: "env \<Rightarrow> bool" where
  "honours_scaled_size e =
     (\<forall>path sz. isValid sz \<longrightarrow> \<not> isNull (fst (readImage e path (Some sz))) \<longrightarrow>
        imageSize (fst (readImage e path (Some sz))) = sz)"

text \<open>The loop of \<open>notifyThumbnailReady\<close> over the drained waiters.\<close>

definition deliver_all ::
  "env \<Rightarrow> qstring \<Rightarrow> bool \<Rightarrow> qstring \<Rightarrow> bool \<Rightarrow> world \<Rightarrow> nat list \<Rightarrow> world" where
  "deliver_all e path isPlaceholder placeholderBase64 useOriginal w xs =
     foldl (\<lambda>w' response.
              handleThumbnailReady e response path isPlaceholder placeholderBase64 useOriginal w')
           w xs"

text \<open>Destroying the responses at a list of addresses, in order.\<close>

definition delete_all :: "nat list \<Rightarrow> world \<Rightarrow> world" where
  "delete_all ds w = foldl (\<lambda>w' x. ThumbnailResponse_delete x w') w ds"

section \<open>A sample environment\<close>

text \<open>
  An environment for evaluating the model: the engine has an artifact on disk for the
  hash \<open>d\<close> only, the files \<open>/cache/d.jpg\<close> and \<open>/cache/h.jpg\<close> decode (to the scaled size
  when one is set, else to their natural size 10 by 10), the placeholder payload \<open>ok\<close>
  decodes to an 8 by 8 image and the placeholder payload \<open>big\<close> to a 100 by 100 image.
  \<open>no_size\<close> is the invalid size a caller passes when it asks for no particular dimension.
\<close>

definition sample_env :: env where
  "sample_env =
     \<lparr>getThumbnailPath = (\<lambda>h s. if h = ''d'' then ''/cache/d.jpg'' else []),
      fileExists = (\<lambda>p. p = ''/cache/d.jpg'' \<or> p = ''/cache/h.jpg''),
      readImage = (\<lambda>p s.
         if p = ''/cache/d.jpg'' \<or> p = ''/cache/h.jpg'' then
           (case s of
              None \<Rightarrow> (QImage_pixels 10 10 [], [])
            | Some z \<Rightarrow> (QImage_pixels (nat (size_width z)) (nat (size_height z)) [], []))
         else (QImage_null, ''file not found'')),
      fromBase64 = (\<lambda>s. s),
      loadFromData = (\<lambda>d. if d = ''ok'' then QImage_pixels 8 8 []
                          else if d = ''big'' then QImage_pixels 100 100 []
                          else QImage_null)\<rparr>"

definition no_size :: qsize where
  "no_size = \<lparr>size_width = - 1, size_height = - 1\<rparr>"

section \<open>The cache: bound and eviction order\<close>

lemma trim_chain_take: "trim_chain m xs = take (nat m) xs"
proof (induction m xs rule: trim_chain.induct)
  case (1 m xs)
  show ?case
  proof (cases "xs \<noteq> [] \<and> m < int (length xs)")
    case True
    then have "trim_chain m xs = trim_chain m (butlast xs)"
      by (subst trim_chain.simps) simp
    also have "\<dots> = take (nat m) (butlast xs)" using 1 True by simp
    also have "\<dots> = take (nat m) xs"
    proof (rule take_butlast)
      show "nat m < length xs" using True by (cases "0 \<le> m") (auto simp: nat_less_iff)
    qed
    finally show ?thesis .
  next
    case False
    then have "trim_chain m xs = xs" by (subst trim_chain.simps) auto
    moreover have "take (nat m) xs = xs" using False by auto
    ultimately show ?thesis by simp
  qed
qed

lemma length_unlink_key_le: "length (unlink_key k xs) \<le> length xs"
  by (simp add: unlink_key_def)

lemma length_unlink_key_less:
  "map_of xs k = Some v \<Longrightarrow> length (unlink_key k xs) < length xs"
proof -
  assume "map_of xs k = Some v"
  then have "(k, v) \<in> set xs" by (rule map_of_SomeD)
  then show ?thesis unfolding unlink_key_def
    by (rule length_filter_less) simp
qed

lemma unlink_key_absent: "k \<notin> fst ` set xs \<Longrightarrow> unlink_key k xs = xs"
  unfolding unlink_key_def by (induction xs) auto

lemma map_of_unlink_key: "map_of (unlink_key k xs) = (map_of xs)(k := None)"
  unfolding unlink_key_def by (induction xs) (auto simp: fun_eq_iff)

lemma map_of_relink:
  "map_of xs k = Some v \<Longrightarrow> (map_of (unlink_key k xs))(k \<mapsto> v) = map_of xs"
  by (auto simp: map_of_unlink_key fun_eq_iff)

lemma bounded_trim: "int (length (chain (qcache_trim m c))) \<le> max 0 m"
  by (simp add: qcache_trim_def trim_chain_take)

lemma mx_trim [simp]: "mx (qcache_trim m c) = mx c"
  by (simp add: qcache_trim_def)

lemma bounded_insert: "cache_bounded c \<Longrightarrow> cache_bounded (snd (qcache_insert k v c))"
proof (cases "mx c < 1")
  case True
  assume "cache_bounded c"
  with True show ?thesis
    using length_unlink_key_le [of k "chain c"]
    by (simp add: qcache_insert_def qcache_remove_def cache_bounded_def)
next
  case False
  have "int (length (unlink_key k (chain (qcache_trim (mx c - 1) c)))) \<le> max 0 (mx c - 1)"
    using length_unlink_key_le [of k "chain (qcache_trim (mx c - 1) c)"]
      bounded_trim [of "mx c - 1" c] by linarith
  with False show ?thesis
    by (simp add: qcache_insert_def cache_bounded_def Let_def)
qed

lemma bounded_object: "cache_bounded c \<Longrightarrow> cache_bounded (snd (qcache_object k c))"
  using length_unlink_key_less [of "chain c" k]
  by (auto simp: qcache_object_def cache_bounded_def split: option.splits)

lemma bounded_setMaxCost: "cache_bounded (qcache_setMaxCost m c)"
  using bounded_trim [of m "c\<lparr>mx := m\<rparr>"]
  by (simp add: qcache_setMaxCost_def cache_bounded_def)

lemma bounded_clear: "cache_bounded (qcache_clear c)"
  by (simp add: qcache_clear_def cache_bounded_def)

lemma insert_chain_fresh:
  assumes "1 \<le> mx c" "k \<notin> fst ` set (chain c)"
  shows "chain (snd (qcache_insert k v c)) = (k, v) # take (nat (mx c - 1)) (chain c)"
proof -
  have "k \<notin> fst ` set (take (nat (mx c - 1)) (chain c))"
    using assms(2) set_take_subset [of "nat (mx c - 1)" "chain c"] by blast
  then show ?thesis using assms(1)
    by (simp add: qcache_insert_def Let_def qcache_trim_def trim_chain_take unlink_key_absent)
qed

lemma mx_insert [simp]: "mx (snd (qcache_insert k v c)) = mx c"
  by (simp add: qcache_insert_def Let_def qcache_remove_def)

lemma cached_after_insert:
  "1 \<le> mx c \<Longrightarrow> map_of (chain (snd (qcache_insert k v c))) k = Some v"
  by (simp add: qcache_insert_def Let_def)

lemma insert_all_snoc: "insert_all (kvs @ [(k, v)]) w = cacheImage k v (insert_all kvs w)"
  by (simp add: insert_all_def)

lemma insert_all_mx [simp]: "mx (m_imageCache (insert_all kvs w)) = mx (m_imageCache w)"
  by (induction kvs rule: rev_induct) (auto simp: insert_all_def cacheImage_def)

lemma insert_all_chain:
  assumes "1 \<le> mx (m_imageCache w)" "chain (m_imageCache w) = []" "distinct (map fst kvs)"
  shows "chain (m_imageCache (insert_all kvs w)) = take (nat (mx (m_imageCache w))) (rev kvs)"
  using assms(3)
proof (induction kvs rule: rev_induct)
  case Nil
  then show ?case using assms(2) by (simp add: insert_all_def)
next
  case (snoc kv kvs)
  obtain k v where kv: "kv = (k, v)" by (cases kv)
  let ?c = "m_imageCache (insert_all kvs w)"
  have IH: "chain ?c = take (nat (mx (m_imageCache w))) (rev kvs)"
    using snoc by simp
  have fresh: "k \<notin> fst ` set (chain ?c)"
    using snoc.prems kv IH set_take_subset [of "nat (mx (m_imageCache w))" "rev kvs"] by auto
  have "chain (m_imageCache (insert_all (kvs @ [kv]) w))
          = (k, v) # take (nat (mx ?c - 1)) (chain ?c)"
    using insert_chain_fresh [OF _ fresh] assms(1)
    by (simp add: kv insert_all_snoc cacheImage_def)
  also have "\<dots> = (k, v) # take (nat (mx (m_imageCache w) - 1)) (rev kvs)"
    using assms(1) by (simp add: IH min_def)
  also have "\<dots> = take (nat (mx (m_imageCache w))) (rev (kvs @ [kv]))"
    using assms(1) by (cases "nat (mx (m_imageCache w))") (auto simp: kv nat_diff_distrib)
  finally show ?case .
qed

lemma insert_all_zero:
  assumes "mx (m_imageCache w) < 1" "chain (m_imageCache w) = []"
  shows "chain (m_imageCache (insert_all kvs w)) = []"
proof (induction kvs rule: rev_induct)
  case Nil
  then show ?case using assms(2) by (simp add: insert_all_def)
next
  case (snoc kv kvs)
  obtain k v where kv: "kv = (k, v)" by (cases kv)
  show ?case using snoc assms(1)
    by (simp add: kv insert_all_snoc cacheImage_def qcache_insert_def qcache_remove_def unlink_key_def)
qed

lemma empty_cache_facts:
  "chain (m_imageCache (setCacheSize cap (clearCache w))) = []"
  "mx (m_imageCache (setCacheSize cap (clearCache w))) = cap"
  by (simp_all add: setCacheSize_def clearCache_def qcache_setMaxCost_def qcache_clear_def
      qcache_trim_def trim_chain_take)

section \<open>Frame lemmas\<close>

lemma removePending_fields [simp]:
  "heap (removePendingRequest h r w) = heap w"
  "m_imageCache (removePendingRequest h r w) = m_imageCache w"
  "enqueued (removePendingRequest h r w) = enqueued w"
  "finished_signals (removePendingRequest h r w) = finished_signals w"
  by (simp_all add: removePendingRequest_def Let_def split: option.splits)

lemma removePending_lookup:
  "m_pendingRequests (removePendingRequest h r w) h' =
     (if h' = h then
        (case m_pendingRequests w h of
           None \<Rightarrow> None
         | Some s \<Rightarrow> if removeAll r s = [] then None else Some (removeAll r s))
      else m_pendingRequests w h')"
  by (simp add: removePendingRequest_def qset_remove_def Let_def split: option.splits)

lemma addPending_fields [simp]:
  "heap (addPendingRequest h r w) = heap w"
  "m_imageCache (addPendingRequest h r w) = m_imageCache w"
  "enqueued (addPendingRequest h r w) = enqueued w"
  "finished_signals (addPendingRequest h r w) = finished_signals w"
  by (simp_all add: addPendingRequest_def Let_def)

lemma addPending_lookup:
  "m_pendingRequests (addPendingRequest h r w) h' =
     (if h' = h then
        Some (qset_insert r (case m_pendingRequests w h of None \<Rightarrow> [] | Some s \<Rightarrow> s))
      else m_pendingRequests w h')"
  by (simp add: addPendingRequest_def Let_def)

lemma cacheImage_fields [simp]:
  "heap (cacheImage k v w) = heap w"
  "m_pendingRequests (cacheImage k v w) = m_pendingRequests w"
  "enqueued (cacheImage k v w) = enqueued w"
  "finished_signals (cacheImage k v w) = finished_signals w"
  "m_imageCache (cacheImage k v w) = snd (qcache_insert k v (m_imageCache w))"
  by (simp_all add: cacheImage_def)

lemma hasCachedImage_alloc [simp]:
  "hasCachedImage key (w\<lparr>heap := hp\<rparr>) = hasCachedImage key w"
  by (simp add: hasCachedImage_def)

lemma finishWithError_fields:
  "m_imageCache (finishWithError this err w) = m_imageCache w"
  "enqueued (finishWithError this err w) = enqueued w"
  by (simp_all add: finishWithError_def Let_def split: option.splits)

lemma finishWithError_heap:
  "heap (finishWithError this err w) =
     (case heap w this of None \<Rightarrow> heap w
      | Some r \<Rightarrow> (heap w)(this \<mapsto> r\<lparr>m_errorString := err, m_finished := True\<rparr>))"
  by (simp add: finishWithError_def Let_def split: option.splits)

lemma finishWithError_pending:
  "m_pendingRequests (finishWithError this err w) =
     (case heap w this of None \<Rightarrow> m_pendingRequests w
      | Some r \<Rightarrow> m_pendingRequests (removePendingRequest (m_fileHash r) this w))"
  by (auto simp: finishWithError_def Let_def removePendingRequest_def split: option.splits)

lemma finishWithImage_fields:
  "enqueued (finishWithImage this img w) = enqueued w"
  by (simp_all add: finishWithImage_def Let_def split: option.splits)

lemma finishWithImage_cache:
  "m_imageCache (finishWithImage this img w) =
     (case heap w this of None \<Rightarrow> m_imageCache w
      | Some r \<Rightarrow> snd (qcache_insert (cacheKeyOf (m_fileHash r) (m_size r)) img (m_imageCache w)))"
  by (simp add: finishWithImage_def Let_def split: option.splits)

lemma finishWithImage_heap:
  "heap (finishWithImage this img w) =
     (case heap w this of None \<Rightarrow> heap w
      | Some r \<Rightarrow> (heap w)(this \<mapsto> r\<lparr>m_image := img, m_finished := True\<rparr>))"
  by (simp add: finishWithImage_def Let_def split: option.splits)

lemma finishWithImage_pending:
  "m_pendingRequests (finishWithImage this img w) =
     (case heap w this of None \<Rightarrow> m_pendingRequests w
      | Some r \<Rightarrow> m_pendingRequests (removePendingRequest (m_fileHash r) this w))"
  by (auto simp: finishWithImage_def Let_def removePendingRequest_def cacheImage_def split: option.splits)

section \<open>Finishing a response\<close>

text \<open>
  What \<open>finishWithImage\<close>, \<open>finishWithError\<close>, the two loaders and \<open>handleThumbnailReady\<close>
  do to the object they are called on, and that they touch no other object.
\<close>

lemma finishWithError_finishes:
  "heap w this = Some r \<Longrightarrow> finishes this w (finishWithError this err w)"
  unfolding finishes_def
  by (simp add: finishWithError_def Let_def removePendingRequest_def split: option.splits)

lemma finishWithImage_finishes:
  "heap w this = Some r \<Longrightarrow> finishes this w (finishWithImage this img w)"
  unfolding finishes_def
  by (simp add: finishWithImage_def Let_def removePendingRequest_def cacheImage_def split: option.splits)

lemma loadFromPath_finishes:
  "heap w this = Some r \<Longrightarrow> finishes this w (loadFromPath e this path w)"
  by (simp add: loadFromPath_def Let_def finishWithError_finishes finishWithImage_finishes
      split: prod.splits)

lemma loadFromBase64_finishes:
  "heap w this = Some r \<Longrightarrow> finishes this w (loadFromBase64 e this b64 w)"
  by (simp add: loadFromBase64_def Let_def finishWithError_finishes finishWithImage_finishes)

lemma handleThumbnailReady_finishes:
  "heap w this = Some r \<Longrightarrow> \<not> m_finished r \<Longrightarrow>
   finishes this w (handleThumbnailReady e this path isP b64 uo w)"
  by (simp add: handleThumbnailReady_def loadFromPath_finishes loadFromBase64_finishes
      finishWithError_finishes)

lemma handleThumbnailReady_cases:
  "(\<exists>r. heap w this = Some r \<and> \<not> m_finished r \<and>
        finishes this w (handleThumbnailReady e this path isP b64 uo w))
   \<or> handleThumbnailReady e this path isP b64 uo w = w"
proof (cases "heap w this")
  case None
  then show ?thesis by (simp add: handleThumbnailReady_def)
next
  case (Some r)
  show ?thesis
  proof (cases "m_finished r")
    case True
    with Some show ?thesis by (simp add: handleThumbnailReady_def)
  next
    case False
    with Some handleThumbnailReady_finishes [OF Some False] show ?thesis by blast
  qed
qed

lemma loadFromPath_heap:
  "heap w this = Some r \<Longrightarrow>
   heap (loadFromPath e this path w) this =
     Some (read_outcome e path (if isValid (m_requestedSize r) then Some (m_requestedSize r) else None) r)"
  by (simp add: loadFromPath_def read_outcome_def Let_def finishWithError_heap finishWithImage_heap
      split: prod.splits)

lemma loadFromBase64_heap:
  "heap w this = Some r \<Longrightarrow>
   heap (loadFromBase64 e this base64 w) this = Some (placeholder_outcome e base64 r)"
  by (simp add: loadFromBase64_def placeholder_outcome_def Let_def finishWithError_heap
      finishWithImage_heap)

lemma handleThumbnailReady_heap:
  assumes "heap w this = Some r" and "\<not> m_finished r"
  shows "heap (handleThumbnailReady e this path isPlaceholder placeholderBase64 useOriginal w) this =
     Some (if isPlaceholder \<and> placeholderBase64 \<noteq> [] then placeholder_outcome e placeholderBase64 r
           else if path \<noteq> [] then
             read_outcome e path
               (if isValid (m_requestedSize r) then Some (m_requestedSize r) else None) r
           else r\<lparr>m_errorString := ''No thumbnail available'', m_finished := True\<rparr>)"
  using assms
  by (simp add: handleThumbnailReady_def loadFromPath_heap loadFromBase64_heap finishWithError_heap)

lemma read_outcome_fields [simp]:
  "m_fileHash (read_outcome e path scaled r) = m_fileHash r"
  "m_filePath (read_outcome e path scaled r) = m_filePath r"
  by (simp_all add: read_outcome_def split: prod.splits)

lemma completion_outcome_finished: "m_finished (completion_outcome e path isP b64 r)"
  by (simp add: completion_outcome_def placeholder_outcome_def read_outcome_def split: prod.splits)

lemma handle_heap_other:
  "x \<noteq> this \<Longrightarrow> heap (handleThumbnailReady e this path isP b64 uo w) x = heap w x"
  using handleThumbnailReady_cases [of w this e path isP b64 uo]
  by (auto simp: finishes_def)

lemma handle_heap_self:
  "heap (handleThumbnailReady e this path isP b64 uo w) this =
     (case heap w this of
        None \<Rightarrow> None
      | Some r \<Rightarrow> if m_finished r then Some r else Some (completion_outcome e path isP b64 r))"
proof (cases "heap w this")
  case None
  then show ?thesis by (simp add: handleThumbnailReady_def)
next
  case (Some r)
  show ?thesis
  proof (cases "m_finished r")
    case True
    with Some show ?thesis by (simp add: handleThumbnailReady_def)
  next
    case False
    from handleThumbnailReady_heap [OF Some False, of e path isP b64 uo]
    show ?thesis using Some False by (simp add: completion_outcome_def)
  qed
qed

lemma handle_pending_none:
  "m_pendingRequests w h = None \<Longrightarrow>
   m_pendingRequests (handleThumbnailReady e this path isP b64 uo w) h = None"
  using handleThumbnailReady_cases [of w this e path isP b64 uo]
  by (auto simp: finishes_def removePending_lookup)

section \<open>The constructor, branch by branch\<close>

lemma new_hit:
  assumes "hasCachedImage (cacheKeyOf fileHash sz) w"
  shows "ThumbnailResponse_new e this fileHash filePath sz requestedSize w =
     w\<lparr>m_imageCache := snd (qcache_object (cacheKeyOf fileHash sz) (m_imageCache w)),
       heap := (heap w)(this \<mapsto> (new_response fileHash filePath sz requestedSize)
                   \<lparr>m_image := fst (getCachedImage (cacheKeyOf fileHash sz) w), m_finished := True\<rparr>),
       finished_signals := finished_signals w @ [this]\<rparr>"
  using assms
  by (simp add: ThumbnailResponse_new_def Let_def getCachedImage_def new_response_def
      split: prod.splits)

lemma new_disk:
  assumes "\<not> hasCachedImage (cacheKeyOf fileHash sz) w"
    "getThumbnailPath e fileHash sz \<noteq> []" "fileExists e (getThumbnailPath e fileHash sz)"
  shows "ThumbnailResponse_new e this fileHash filePath sz requestedSize w =
     loadFromPath e this (getThumbnailPath e fileHash sz)
       (w\<lparr>heap := (heap w)(this \<mapsto> new_response fileHash filePath sz requestedSize)\<rparr>)"
  using assms by (simp add: ThumbnailResponse_new_def Let_def new_response_def)

lemma new_missing:
  assumes "\<not> hasCachedImage (cacheKeyOf fileHash sz) w"
    "\<not> (getThumbnailPath e fileHash sz \<noteq> [] \<and> fileExists e (getThumbnailPath e fileHash sz))"
    "filePath = []"
  shows "ThumbnailResponse_new e this fileHash filePath sz requestedSize w =
     finishWithError this ''Missing file path for thumbnail request''
       (w\<lparr>heap := (heap w)(this \<mapsto> new_response fileHash filePath sz requestedSize)\<rparr>)"
  using assms by (auto simp: ThumbnailResponse_new_def Let_def new_response_def)

lemma new_enqueue:
  assumes "\<not> hasCachedImage (cacheKeyOf fileHash sz) w"
    "\<not> (getThumbnailPath e fileHash sz \<noteq> [] \<and> fileExists e (getThumbnailPath e fileHash sz))"
    "filePath \<noteq> []"
  shows "ThumbnailResponse_new e this fileHash filePath sz requestedSize w =
     (addPendingRequest fileHash this
        (w\<lparr>heap := (heap w)(this \<mapsto> new_response fileHash filePath sz requestedSize)\<rparr>))
     \<lparr>enqueued := enqueued w @ [[\<lparr>req_filePath = filePath, req_fileHash = fileHash, req_size = sz\<rparr>]]\<rparr>"
  using assms by (auto simp: ThumbnailResponse_new_def Let_def new_response_def)

lemma new_heap_this:
  "\<exists>r'. heap (ThumbnailResponse_new e this fileHash filePath sz requestedSize w) this = Some r' \<and>
         m_fileHash r' = fileHash \<and> m_filePath r' = filePath"
proof -
  let ?r0 = "new_response fileHash filePath sz requestedSize"
  let ?w0 = "w\<lparr>heap := (heap w)(this \<mapsto> ?r0)\<rparr>"
  let ?key = "cacheKeyOf fileHash sz"
  let ?path = "getThumbnailPath e fileHash sz"
  have live0: "heap ?w0 this = Some ?r0" by simp
  have f0: "m_fileHash ?r0 = fileHash" "m_filePath ?r0 = filePath" by (simp_all add: new_response_def)
  show ?thesis
  proof (cases "hasCachedImage ?key w")
    case True
    show ?thesis unfolding new_hit [OF True] by (simp add: f0)
  next
    case miss: False
    show ?thesis
    proof (cases "?path \<noteq> [] \<and> fileExists e ?path")
      case True
      then have eq: "ThumbnailResponse_new e this fileHash filePath sz requestedSize w
          = loadFromPath e this ?path ?w0" using miss by (simp add: new_disk)
      show ?thesis unfolding eq loadFromPath_heap [OF live0] by (simp add: f0)
    next
      case nodisk: False
      show ?thesis
      proof (cases "filePath = []")
        case True
        show ?thesis unfolding new_missing [OF miss nodisk True]
          by (simp add: finishWithError_heap f0)
      next
        case False
        show ?thesis unfolding new_enqueue [OF miss nodisk False] by (simp add: f0)
      qed
    qed
  qed
qed

section \<open>The registry invariant\<close>

text \<open>
  \<open>registry_ok\<close> holds for a new provider and is kept by every call, so it holds in every
  state that a run reaches (\<open>registry_ok_run\<close>). The statements below that assume it
  are about all of these states.
\<close>

lemma registry_ok_finishes:
  assumes ok: "registry_ok w" and fin: "finishes this w w'"
  shows "registry_ok w'"
proof -
  from fin obtain r where
    live: "heap w this = Some r" and
    hp: "\<forall>x. x \<noteq> this \<longrightarrow> heap w' x = heap w x" and
    pend: "m_pendingRequests w' = m_pendingRequests (removePendingRequest (m_fileHash r) this w)"
    unfolding finishes_def by blast
  show ?thesis
    unfolding registry_ok_def
  proof (intro allI impI)
    fix h s
    assume hs: "m_pendingRequests w' h = Some s"
    show "s \<noteq> [] \<and> distinct s \<and>
          (\<forall>x\<in>set s. \<exists>resp. heap w' x = Some resp \<and> \<not> m_finished resp \<and> m_fileHash resp = h)"
    proof (cases "h = m_fileHash r")
      case True
      from hs obtain s0 where s0: "m_pendingRequests w h = Some s0"
        and s: "s = removeAll this s0" and ne: "s \<noteq> []"
        by (auto simp: pend removePending_lookup True split: option.splits if_splits)
      from ok s0 have d: "distinct s0"
        and el: "\<forall>x\<in>set s0. \<exists>resp. heap w x = Some resp \<and> \<not> m_finished resp \<and> m_fileHash resp = h"
        unfolding registry_ok_def by blast+
      have "\<forall>x\<in>set s. heap w' x = heap w x \<and> x \<in> set s0" using hp by (simp add: s)
      then show ?thesis using ne d el by (metis distinct_removeAll s)
    next
      case False
      from hs have s0: "m_pendingRequests w h = Some s"
        by (simp add: pend removePending_lookup False)
      from ok s0 have ne: "s \<noteq> []" and d: "distinct s"
        and el: "\<forall>x\<in>set s. \<exists>resp. heap w x = Some resp \<and> \<not> m_finished resp \<and> m_fileHash resp = h"
        unfolding registry_ok_def by blast+
      have "this \<notin> set s" using el live False by auto
      then have "\<forall>x\<in>set s. heap w' x = heap w x" using hp by metis
      then show ?thesis using ne d el by simp
    qed
  qed
qed

lemma registry_ok_handleThumbnailReady:
  "registry_ok w \<Longrightarrow> registry_ok (handleThumbnailReady e this path isP b64 uo w)"
  using handleThumbnailReady_cases [of w this e path isP b64 uo] registry_ok_finishes
  by auto

lemma registry_ok_erase:
  "registry_ok w \<Longrightarrow> registry_ok (w\<lparr>m_pendingRequests := (m_pendingRequests w)(h := None)\<rparr>)"
  unfolding registry_ok_def by (auto split: if_splits)

lemma registry_ok_foldl_handle:
  "registry_ok w \<Longrightarrow>
   registry_ok (foldl (\<lambda>w' x. handleThumbnailReady e x path isP b64 uo w') w xs)"
  by (induction xs arbitrary: w) (simp_all add: registry_ok_handleThumbnailReady)

lemma registry_ok_notify:
  "registry_ok w \<Longrightarrow> registry_ok (notifyThumbnailReady e h sz path isP b64 uo w)"
  by (simp add: notifyThumbnailReady_def registry_ok_foldl_handle registry_ok_erase
      split: option.splits)

lemma registry_ok_delete:
  assumes ok: "registry_ok w"
  shows "registry_ok (ThumbnailResponse_delete this w)"
proof (cases "heap w this")
  case None
  then show ?thesis using ok by (simp add: ThumbnailResponse_delete_def)
next
  case (Some r)
  show ?thesis
  proof (cases "m_finished r")
    case True
    have "\<And>h s. m_pendingRequests w h = Some s \<Longrightarrow> this \<notin> set s"
      using ok Some True unfolding registry_ok_def by fastforce
    then show ?thesis using ok Some True
      unfolding registry_ok_def by (auto simp: ThumbnailResponse_delete_def)
  next
    case False
    let ?w1 = "removePendingRequest (m_fileHash r) this w"
    have "finishes this w (?w1\<lparr>heap := (heap w)(this \<mapsto> r\<lparr>m_finished := True\<rparr>),
                               finished_signals := finished_signals w @ [this]\<rparr>)"
      unfolding finishes_def using Some by simp
    from registry_ok_finishes [OF ok this]
    have ok1: "registry_ok (?w1\<lparr>heap := (heap w)(this \<mapsto> r\<lparr>m_finished := True\<rparr>),
                               finished_signals := finished_signals w @ [this]\<rparr>)" .
    have del: "ThumbnailResponse_delete this w = ?w1\<lparr>heap := (heap w)(this := None)\<rparr>"
      using Some False by (simp add: ThumbnailResponse_delete_def)
    show ?thesis unfolding del registry_ok_def
    proof (intro allI impI)
      fix h s
      assume "m_pendingRequests (?w1\<lparr>heap := (heap w)(this := None)\<rparr>) h = Some s"
      then have hs: "m_pendingRequests ?w1 h = Some s" by simp
      with ok1 have ne: "s \<noteq> []" and d: "distinct s" and
        el: "\<forall>x\<in>set s. \<exists>resp. ((heap w)(this \<mapsto> r\<lparr>m_finished := True\<rparr>)) x = Some resp
               \<and> \<not> m_finished resp \<and> m_fileHash resp = h"
        unfolding registry_ok_def by (simp, simp, fastforce)
      have "\<forall>x\<in>set s. \<exists>resp. ((heap w)(this := None)) x = Some resp
               \<and> \<not> m_finished resp \<and> m_fileHash resp = h"
        using el by (auto split: if_splits)
      then show "s \<noteq> [] \<and> distinct s \<and>
          (\<forall>x\<in>set s. \<exists>resp. heap (?w1\<lparr>heap := (heap w)(this := None)\<rparr>) x = Some resp
              \<and> \<not> m_finished resp \<and> m_fileHash resp = h)"
        using ne d by simp
    qed
  qed
qed

lemma registry_ok_cong:
  "m_pendingRequests w' = m_pendingRequests w \<Longrightarrow> heap w' = heap w \<Longrightarrow>
   registry_ok w' = registry_ok w"
  by (simp add: registry_ok_def)

lemma registry_ok_not_waiting:
  "registry_ok w \<Longrightarrow> heap w this = None \<Longrightarrow> m_pendingRequests w h = Some s \<Longrightarrow> this \<notin> set s"
  unfolding registry_ok_def by fastforce

lemma registry_ok_alloc:
  assumes "registry_ok w" "heap w this = None"
  shows "registry_ok (w\<lparr>heap := (heap w)(this \<mapsto> r)\<rparr>)"
  unfolding registry_ok_def
proof (intro allI impI)
  fix h s
  assume "m_pendingRequests (w\<lparr>heap := (heap w)(this \<mapsto> r)\<rparr>) h = Some s"
  then have hs: "m_pendingRequests w h = Some s" by simp
  from registry_ok_not_waiting [OF assms hs] have "this \<notin> set s" .
  moreover from assms(1) hs have "s \<noteq> []" "distinct s"
    "\<forall>x\<in>set s. \<exists>resp. heap w x = Some resp \<and> \<not> m_finished resp \<and> m_fileHash resp = h"
    unfolding registry_ok_def by blast+
  ultimately show "s \<noteq> [] \<and> distinct s \<and>
     (\<forall>x\<in>set s. \<exists>resp. heap (w\<lparr>heap := (heap w)(this \<mapsto> r)\<rparr>) x = Some resp \<and>
         \<not> m_finished resp \<and> m_fileHash resp = h)"
    by auto
qed

lemma registry_ok_add:
  assumes ok: "registry_ok w" and live: "heap w this = Some r" "\<not> m_finished r" "m_fileHash r = h"
  shows "registry_ok (addPendingRequest h this w)"
  unfolding registry_ok_def
proof (intro allI impI)
  fix h' s
  assume a: "m_pendingRequests (addPendingRequest h this w) h' = Some s"
  show "s \<noteq> [] \<and> distinct s \<and>
     (\<forall>x\<in>set s. \<exists>resp. heap (addPendingRequest h this w) x = Some resp \<and>
         \<not> m_finished resp \<and> m_fileHash resp = h')"
  proof (cases "h' = h")
    case False
    with a have "m_pendingRequests w h' = Some s" by (simp add: addPending_lookup)
    with ok show ?thesis unfolding registry_ok_def by simp
  next
    case True
    show ?thesis
    proof (cases "m_pendingRequests w h")
      case None
      with a True have "s = [this]" by (simp add: addPending_lookup qset_insert_def)
      then show ?thesis using live True by simp
    next
      case (Some s0)
      with a True have s: "s = qset_insert this s0" by (simp add: addPending_lookup)
      from ok Some have "distinct s0"
        "\<forall>x\<in>set s0. \<exists>resp. heap w x = Some resp \<and> \<not> m_finished resp \<and> m_fileHash resp = h"
        unfolding registry_ok_def by blast+
      then show ?thesis using live True by (auto simp: s qset_insert_def)
    qed
  qed
qed

lemma registry_ok_alloc_any:
  assumes "registry_ok w" "heap w this = None"
    "m_pendingRequests w' = m_pendingRequests w" "heap w' = (heap w)(this \<mapsto> r)"
  shows "registry_ok w'"
proof -
  have "registry_ok w' = registry_ok (w\<lparr>heap := (heap w)(this \<mapsto> r)\<rparr>)"
    by (rule registry_ok_cong) (simp_all add: assms)
  then show ?thesis using registry_ok_alloc [OF assms(1,2)] by simp
qed

lemma registry_ok_new:
  assumes ok: "registry_ok w" and fresh: "heap w this = None"
  shows "registry_ok (ThumbnailResponse_new e this fileHash filePath sz requestedSize w)"
proof -
  let ?r = "\<lparr>m_fileHash = fileHash, m_filePath = filePath, m_size = sz,
                m_requestedSize = requestedSize, m_image = QImage_null,
                m_errorString = [], m_finished = False\<rparr>"
  let ?w0 = "w\<lparr>heap := (heap w)(this \<mapsto> ?r)\<rparr>"
  let ?key = "cacheKeyOf fileHash sz"
  let ?path = "getThumbnailPath e fileHash sz"
  have ok0: "registry_ok ?w0" by (rule registry_ok_alloc [OF ok fresh])
  have live0: "heap ?w0 this = Some ?r" by simp
  show ?thesis
  proof (cases "hasCachedImage ?key ?w0")
    case True
    obtain img w1 where g: "getCachedImage ?key ?w0 = (img, w1)" by (cases "getCachedImage ?key ?w0")
    then have w1: "m_pendingRequests w1 = m_pendingRequests w" "heap w1 = heap ?w0"
      by (auto simp: getCachedImage_def split: prod.splits)
    have "registry_ok (w1\<lparr>heap := (heap w1)(this \<mapsto> ?r\<lparr>m_image := img, m_finished := True\<rparr>)\<rparr>
                         \<lparr>finished_signals := finished_signals w1 @ [this]\<rparr>)"
      by (rule registry_ok_alloc_any [OF ok fresh]) (simp_all add: w1)
    then show ?thesis using True g by (simp add: ThumbnailResponse_new_def Let_def)
  next
    case miss: False
    show ?thesis
    proof (cases "?path \<noteq> [] \<and> fileExists e ?path")
      case True
      then show ?thesis
        using miss registry_ok_finishes [OF ok0 loadFromPath_finishes [OF live0]]
        by (simp add: ThumbnailResponse_new_def Let_def)
    next
      case nodisk: False
      show ?thesis
      proof (cases "filePath = []")
        case True
        then show ?thesis
          using miss nodisk registry_ok_finishes [OF ok0 finishWithError_finishes [OF live0]]
          by (auto simp: ThumbnailResponse_new_def Let_def)
      next
        case False
        have "registry_ok (addPendingRequest fileHash this ?w0)"
          by (rule registry_ok_add [OF ok0 live0]) simp_all
        moreover have "registry_ok (addPendingRequest fileHash this ?w0\<lparr>enqueued := q\<rparr>)
            = registry_ok (addPendingRequest fileHash this ?w0)" for q
          by (rule registry_ok_cong) simp_all
        ultimately show ?thesis
          using miss nodisk False by (auto simp: ThumbnailResponse_new_def Let_def)
      qed
    qed
  qed
qed

lemma registry_ok_request:
  "registry_ok w \<Longrightarrow> heap w this = None \<Longrightarrow>
   registry_ok (requestImageResponse e this ident requestedSize w)"
  by (simp add: requestImageResponse_def registry_ok_new split: prod.splits)

lemma registry_ok_cache_ops:
  "registry_ok (clearCache w) = registry_ok w"
  "registry_ok (setCacheSize n w) = registry_ok w"
  "registry_ok (cacheImage k v w) = registry_ok w"
  "registry_ok (snd (getCachedImage k w)) = registry_ok w"
  by (rule registry_ok_cong;
      simp add: clearCache_def setCacheSize_def getCachedImage_def split: prod.splits)+

lemma registry_ok_step: "registry_ok w \<Longrightarrow> registry_ok (step e c w)"
  by (cases c)
     (simp_all add: registry_ok_request registry_ok_delete registry_ok_notify registry_ok_cache_ops)

lemma registry_ok_init: "registry_ok ThumbnailProvider_init"
  by (simp add: registry_ok_def ThumbnailProvider_init_def)

lemma registry_ok_run: "registry_ok w \<Longrightarrow> registry_ok (run e calls w)"
  unfolding run_def by (induction calls arbitrary: w) (simp_all add: registry_ok_step)

lemma removePending_absent:
  assumes "registry_ok w" "\<And>s. m_pendingRequests w h = Some s \<Longrightarrow> this \<notin> set s"
  shows "m_pendingRequests (removePendingRequest h this w) = m_pendingRequests w"
proof (cases "m_pendingRequests w h")
  case None
  then show ?thesis by (simp add: removePendingRequest_def)
next
  case (Some s)
  with assms have "this \<notin> set s" "s \<noteq> []" unfolding registry_ok_def by auto
  then show ?thesis using Some
    by (simp add: removePendingRequest_def qset_remove_def Let_def fun_upd_idem)
qed

lemma removeAll_Nil_iff: "removeAll x xs = [] \<longleftrightarrow> set xs \<subseteq> {x}"
  by (induction xs) auto

lemma waiters_removePending:
  "waiters (removePendingRequest h x w) h' = (if h' = h then waiters w h - {x} else waiters w h')"
  by (auto simp: waiters_def removePending_lookup removeAll_Nil_iff split: option.splits)

lemma waiters_heap_update [simp]: "waiters (w\<lparr>heap := hp\<rparr>) h = waiters w h"
  by (simp add: waiters_def)

lemma registry_ok_waiter_live:
  "registry_ok w \<Longrightarrow> x \<in> waiters w h \<Longrightarrow>
   \<exists>r. heap w x = Some r \<and> \<not> m_finished r \<and> m_fileHash r = h"
  unfolding registry_ok_def waiters_def by (auto split: option.splits)

lemma registry_ok_no_waiters:
  "registry_ok w \<Longrightarrow> waiters w h = {} \<Longrightarrow> m_pendingRequests w h = None"
  unfolding registry_ok_def waiters_def by (cases "m_pendingRequests w h") auto

lemma waiters_delete:
  assumes ok: "registry_ok w"
  shows "waiters (ThumbnailResponse_delete x w) h = waiters w h - {x}"
proof (cases "heap w x")
  case None
  then have "x \<notin> waiters w h" using registry_ok_waiter_live [OF ok] by fastforce
  then show ?thesis using None by (simp add: ThumbnailResponse_delete_def)
next
  case (Some r)
  show ?thesis
  proof (cases "m_finished r")
    case True
    then have "x \<notin> waiters w h" using registry_ok_waiter_live [OF ok] Some by fastforce
    then show ?thesis using Some True by (simp add: ThumbnailResponse_delete_def)
  next
    case False
    show ?thesis
    proof (cases "h = m_fileHash r")
      case True
      then show ?thesis using Some False
        by (simp add: ThumbnailResponse_delete_def waiters_removePending)
    next
      case hne: False
      then have "x \<notin> waiters w h" using registry_ok_waiter_live [OF ok] Some by fastforce
      then show ?thesis using Some False hne
        by (simp add: ThumbnailResponse_delete_def waiters_removePending)
    qed
  qed
qed

lemma registry_ok_delete_all: "registry_ok w \<Longrightarrow> registry_ok (delete_all ds w)"
  unfolding delete_all_def by (induction ds arbitrary: w) (simp_all add: registry_ok_delete)

lemma waiters_delete_all:
  "registry_ok w \<Longrightarrow> waiters (delete_all ds w) h = waiters w h - set ds"
proof (induction ds arbitrary: w)
  case Nil
  then show ?case by (simp add: delete_all_def)
next
  case (Cons d ds)
  have "delete_all (d # ds) w = delete_all ds (ThumbnailResponse_delete d w)"
    by (simp add: delete_all_def)
  then show ?case
    using Cons.IH [OF registry_ok_delete [OF Cons.prems], of d] waiters_delete [OF Cons.prems, of d h]
    by auto
qed

section \<open>The cache invariant\<close>

text \<open>
  The bound on the number of cached images is kept by every call (\<open>cache_inv_run\<close>).
\<close>

lemma cache_inv_finishWithImage: "cache_inv w \<Longrightarrow> cache_inv (finishWithImage this img w)"
  by (simp add: cache_inv_def finishWithImage_cache bounded_insert split: option.splits)

lemma cache_inv_finishWithError: "cache_inv w \<Longrightarrow> cache_inv (finishWithError this err w)"
  by (simp add: cache_inv_def finishWithError_fields)

lemma cache_inv_loadFromPath: "cache_inv w \<Longrightarrow> cache_inv (loadFromPath e this path w)"
  by (simp add: loadFromPath_def Let_def cache_inv_finishWithImage cache_inv_finishWithError
      split: option.splits prod.splits)

lemma cache_inv_loadFromBase64: "cache_inv w \<Longrightarrow> cache_inv (loadFromBase64 e this b64 w)"
  by (simp add: loadFromBase64_def Let_def cache_inv_finishWithImage cache_inv_finishWithError)

lemma cache_inv_handle:
  "cache_inv w \<Longrightarrow> cache_inv (handleThumbnailReady e this path isP b64 uo w)"
  by (simp add: handleThumbnailReady_def cache_inv_loadFromPath cache_inv_loadFromBase64
      cache_inv_finishWithError split: option.splits)

lemma cache_inv_foldl_handle:
  "cache_inv w \<Longrightarrow> cache_inv (foldl (\<lambda>w' x. handleThumbnailReady e x path isP b64 uo w') w xs)"
  by (induction xs arbitrary: w) (simp_all add: cache_inv_handle)

lemma cache_inv_notify:
  "cache_inv w \<Longrightarrow> cache_inv (notifyThumbnailReady e h sz path isP b64 uo w)"
proof -
  assume a: "cache_inv w"
  have "cache_inv (w\<lparr>m_pendingRequests := p\<rparr>)" for p
    using a by (simp add: cache_inv_def)
  then show ?thesis using a
    by (simp add: notifyThumbnailReady_def cache_inv_foldl_handle split: option.splits)
qed

lemma cache_inv_delete: "cache_inv w \<Longrightarrow> cache_inv (ThumbnailResponse_delete this w)"
  by (simp add: cache_inv_def ThumbnailResponse_delete_def Let_def split: option.splits)

lemma cache_inv_getCachedImage: "cache_inv w \<Longrightarrow> cache_inv (snd (getCachedImage key w))"
  using bounded_object [of "m_imageCache w" key]
  by (auto simp: cache_inv_def getCachedImage_def split: prod.splits)

lemma cache_inv_cacheImage: "cache_inv w \<Longrightarrow> cache_inv (cacheImage key img w)"
  by (simp add: cache_inv_def bounded_insert)

lemma cache_inv_new:
  assumes "cache_inv w"
  shows "cache_inv (ThumbnailResponse_new e this fileHash filePath sz requestedSize w)"
proof -
  let ?r = "\<lparr>m_fileHash = fileHash, m_filePath = filePath, m_size = sz,
                m_requestedSize = requestedSize, m_image = QImage_null,
                m_errorString = [], m_finished = False\<rparr>"
  let ?w0 = "w\<lparr>heap := (heap w)(this \<mapsto> ?r)\<rparr>"
  have inv0: "cache_inv ?w0" using assms by (simp add: cache_inv_def)
  have hit: "cache_inv (w1\<lparr>heap := hp, finished_signals := fs\<rparr>)"
    if "getCachedImage key ?w0 = (img, w1)" for key img w1 hp fs
  proof -
    have "cache_inv (snd (getCachedImage key ?w0))" by (rule cache_inv_getCachedImage [OF inv0])
    then show ?thesis using that by (simp add: cache_inv_def)
  qed
  have enq: "cache_inv (addPendingRequest fileHash this ?w0\<lparr>enqueued := q\<rparr>)" for q
    using inv0 by (simp add: cache_inv_def)
  show ?thesis
    unfolding ThumbnailResponse_new_def Let_def
    using cache_inv_loadFromPath [OF inv0] cache_inv_finishWithError [OF inv0] enq hit
    by (auto split: prod.splits)
qed

lemma cache_inv_step: "cache_inv w \<Longrightarrow> cache_inv (step e c w)"
proof (cases c)
  case (RequestImageResponse this ident rs)
  then show "cache_inv w \<Longrightarrow> ?thesis"
    by (simp add: requestImageResponse_def cache_inv_new split: prod.splits)
next
  case ClearCache
  then show ?thesis using bounded_clear by (simp add: cache_inv_def clearCache_def)
next
  case (SetCacheSize n)
  then show ?thesis using bounded_setMaxCost by (simp add: cache_inv_def setCacheSize_def)
qed (simp_all add: cache_inv_delete cache_inv_notify cache_inv_cacheImage cache_inv_getCachedImage)

lemma cache_inv_run: "cache_inv w \<Longrightarrow> cache_inv (run e calls w)"
  unfolding run_def by (induction calls arbitrary: w) (simp_all add: cache_inv_step)

lemma cache_inv_init: "cache_inv ThumbnailProvider_init"
  by (simp add: cache_inv_def cache_bounded_def ThumbnailProvider_init_def DEFAULT_CACHE_SIZE_def)

section \<open>Unfinished responses hold no image\<close>

text \<open>
  The image of a response is set only together with \<open>m_finished\<close>, so in every state that
  a run reaches a response that is not finished has the null image (\<open>responses_ok_run\<close>).
\<close>

lemma responses_ok_finishes: "responses_ok w \<Longrightarrow> finishes this w w' \<Longrightarrow> responses_ok w'"
  unfolding responses_ok_def finishes_def by (metis option.inject)

lemma responses_ok_handle:
  "responses_ok w \<Longrightarrow> responses_ok (handleThumbnailReady e this path isP b64 uo w)"
  using handleThumbnailReady_cases [of w this e path isP b64 uo] responses_ok_finishes by auto

lemma responses_ok_cong: "heap w' = heap w \<Longrightarrow> responses_ok w' = responses_ok w"
  by (simp add: responses_ok_def)

lemma responses_ok_alloc:
  "responses_ok w \<Longrightarrow> m_finished r \<or> isNull (m_image r) \<Longrightarrow>
   responses_ok (w\<lparr>heap := (heap w)(this \<mapsto> r)\<rparr>)"
  unfolding responses_ok_def by auto

lemma responses_ok_notify:
  "responses_ok w \<Longrightarrow> responses_ok (notifyThumbnailReady e h sz path isP b64 uo w)"
proof -
  assume a: "responses_ok w"
  have "responses_ok (foldl (\<lambda>w' x. handleThumbnailReady e x path isP b64 uo w') v xs)"
    if "responses_ok v" for v xs
    using that by (induction xs arbitrary: v) (simp_all add: responses_ok_handle)
  moreover have "responses_ok (w\<lparr>m_pendingRequests := p\<rparr>)" for p
    using a by (simp add: responses_ok_def)
  ultimately show ?thesis
    using a by (simp add: notifyThumbnailReady_def split: option.splits)
qed

lemma responses_ok_delete: "responses_ok w \<Longrightarrow> responses_ok (ThumbnailResponse_delete this w)"
  unfolding responses_ok_def
  by (auto simp: ThumbnailResponse_delete_def Let_def split: option.splits if_splits)

lemma responses_ok_new:
  assumes ok: "responses_ok w"
  shows "responses_ok (ThumbnailResponse_new e this fileHash filePath sz requestedSize w)"
proof -
  let ?r0 = "new_response fileHash filePath sz requestedSize"
  let ?w0 = "w\<lparr>heap := (heap w)(this \<mapsto> ?r0)\<rparr>"
  let ?key = "cacheKeyOf fileHash sz"
  let ?path = "getThumbnailPath e fileHash sz"
  have ok0: "responses_ok ?w0"
    by (rule responses_ok_alloc [OF ok]) (simp add: new_response_def isNull_def)
  have live0: "heap ?w0 this = Some ?r0" by simp
  show ?thesis
  proof (cases "hasCachedImage ?key w")
    case True
    have "responses_ok (w\<lparr>heap := (heap w)(this \<mapsto>
        ?r0\<lparr>m_image := fst (getCachedImage ?key w), m_finished := True\<rparr>)\<rparr>)"
      by (rule responses_ok_alloc [OF ok]) simp
    then show ?thesis unfolding new_hit [OF True] by (simp add: responses_ok_def)
  next
    case miss: False
    show ?thesis
    proof (cases "?path \<noteq> [] \<and> fileExists e ?path")
      case True
      then have eq: "ThumbnailResponse_new e this fileHash filePath sz requestedSize w
          = loadFromPath e this ?path ?w0" using miss by (simp add: new_disk)
      show ?thesis unfolding eq
        by (rule responses_ok_finishes [OF ok0 loadFromPath_finishes [OF live0]])
    next
      case nodisk: False
      show ?thesis
      proof (cases "filePath = []")
        case True
        show ?thesis unfolding new_missing [OF miss nodisk True]
          by (rule responses_ok_finishes [OF ok0 finishWithError_finishes [OF live0]])
      next
        case False
        show ?thesis unfolding new_enqueue [OF miss nodisk False]
          using ok0 by (simp add: responses_ok_def)
      qed
    qed
  qed
qed

lemma responses_ok_step: "responses_ok w \<Longrightarrow> responses_ok (step e c w)"
proof (cases c)
  case (RequestImageResponse this ident rs)
  then show "responses_ok w \<Longrightarrow> ?thesis"
    by (simp add: requestImageResponse_def responses_ok_new split: prod.splits)
next
  case (GetCachedImage key)
  assume "responses_ok w"
  moreover have "heap (snd (getCachedImage key w)) = heap w"
    by (simp add: getCachedImage_def split: prod.splits)
  ultimately show ?thesis using GetCachedImage by (simp add: responses_ok_def)
next
  case ClearCache
  then show "responses_ok w \<Longrightarrow> ?thesis" by (simp add: responses_ok_def clearCache_def)
next
  case (SetCacheSize n)
  then show "responses_ok w \<Longrightarrow> ?thesis" by (simp add: responses_ok_def setCacheSize_def)
next
  case (CacheImage key img)
  then show "responses_ok w \<Longrightarrow> ?thesis" by (simp add: responses_ok_def)
qed (simp_all add: responses_ok_delete responses_ok_notify)

lemma responses_ok_run: "responses_ok (run e calls ThumbnailProvider_init)"
proof -
  have "responses_ok w \<Longrightarrow> responses_ok (run e calls w)" for w
    unfolding run_def by (induction calls arbitrary: w) (simp_all add: responses_ok_step)
  moreover have "responses_ok ThumbnailProvider_init"
    by (simp add: responses_ok_def ThumbnailProvider_init_def)
  ultimately show ?thesis by simp
qed

section \<open>Sample states\<close>

text \<open>
  The states used to evaluate the statements: a new provider, one waiting request for the
  hash \<open>h\<close>, and two waiting requests for \<open>h\<close> of different size classes.
\<close>

lemma init_fields [simp]:
  "heap ThumbnailProvider_init = Map.empty"
  "m_pendingRequests ThumbnailProvider_init = Map.empty"
  "enqueued ThumbnailProvider_init = []"
  "finished_signals ThumbnailProvider_init = []"
  "m_imageCache ThumbnailProvider_init = \<lparr>mx = 200, chain = []\<rparr>"
  by (simp_all add: ThumbnailProvider_init_def DEFAULT_CACHE_SIZE_def)

lemma hasCachedImage_init [simp]: "\<not> hasCachedImage key ThumbnailProvider_init"
  by (simp add: hasCachedImage_def qcache_contains_def)

lemma sample_env_fields [simp]:
  "getThumbnailPath sample_env h s = (if h = ''d'' then ''/cache/d.jpg'' else [])"
  "fileExists sample_env p = (p = ''/cache/d.jpg'' \<or> p = ''/cache/h.jpg'')"
  "fromBase64 sample_env b = b"
  "loadFromData sample_env d =
     (if d = ''ok'' then QImage_pixels 8 8 []
      else if d = ''big'' then QImage_pixels 100 100 [] else QImage_null)"
  by (simp_all add: sample_env_def)

lemma sample_env_readImage:
  "readImage sample_env p s =
     (if p = ''/cache/d.jpg'' \<or> p = ''/cache/h.jpg'' then
        (case s of
           None \<Rightarrow> (QImage_pixels 10 10 [], [])
         | Some z \<Rightarrow> (QImage_pixels (nat (size_width z)) (nat (size_height z)) [], []))
      else (QImage_null, ''file not found''))"
  by (simp add: sample_env_def)

lemma waiting_world:
  "ThumbnailResponse_new sample_env 1 ''h'' ''/a.jpg'' ''medium'' rs ThumbnailProvider_init =
     ThumbnailProvider_init
       \<lparr>m_pendingRequests := [''h'' \<mapsto> [1]],
        heap := [1 \<mapsto> new_response ''h'' ''/a.jpg'' ''medium'' rs],
        enqueued := [[\<lparr>req_filePath = ''/a.jpg'', req_fileHash = ''h'', req_size = ''medium''\<rparr>]]\<rparr>"
proof -
  have nodisk: "\<not> (getThumbnailPath sample_env ''h'' ''medium'' \<noteq> [] \<and>
      fileExists sample_env (getThumbnailPath sample_env ''h'' ''medium''))" by simp
  show ?thesis
    by (simp add: new_enqueue [OF hasCachedImage_init nodisk] addPendingRequest_def qset_insert_def)
qed

lemma two_waiters:
  "ThumbnailResponse_new sample_env 2 ''h'' ''/a.jpg'' ''small'' rs2
     (ThumbnailResponse_new sample_env 1 ''h'' ''/a.jpg'' ''medium'' rs1 ThumbnailProvider_init) =
     ThumbnailProvider_init
       \<lparr>m_pendingRequests := [''h'' \<mapsto> [1, 2]],
        heap := [1 \<mapsto> new_response ''h'' ''/a.jpg'' ''medium'' rs1,
                 2 \<mapsto> new_response ''h'' ''/a.jpg'' ''small'' rs2],
        enqueued := [[\<lparr>req_filePath = ''/a.jpg'', req_fileHash = ''h'', req_size = ''medium''\<rparr>],
                     [\<lparr>req_filePath = ''/a.jpg'', req_fileHash = ''h'', req_size = ''small''\<rparr>]]\<rparr>"
proof -
  have nodisk: "\<not> (getThumbnailPath sample_env ''h'' sz \<noteq> [] \<and>
      fileExists sample_env (getThumbnailPath sample_env ''h'' sz))" for sz by simp
  have miss: "\<not> hasCachedImage key (ThumbnailProvider_init
       \<lparr>m_pendingRequests := p, heap := hp, enqueued := q\<rparr>)" for key p hp q
    by (simp add: hasCachedImage_def qcache_contains_def)
  show ?thesis
    unfolding waiting_world
    by (simp add: new_enqueue [OF miss nodisk] addPendingRequest_def qset_insert_def)
qed

lemma registry_ok_two_waiters:
  "registry_ok (ThumbnailResponse_new sample_env 2 ''h'' ''/a.jpg'' ''small'' rs2
     (ThumbnailResponse_new sample_env 1 ''h'' ''/a.jpg'' ''medium'' rs1 ThumbnailProvider_init))"
proof (rule registry_ok_new)
  show "registry_ok (ThumbnailResponse_new sample_env 1 ''h'' ''/a.jpg'' ''medium'' rs1 ThumbnailProvider_init)"
    by (rule registry_ok_new [OF registry_ok_init]) simp
  show "heap (ThumbnailResponse_new sample_env 1 ''h'' ''/a.jpg'' ''medium'' rs1 ThumbnailProvider_init) 2 = None"
    unfolding waiting_world by simp
qed

section \<open>C1: request coalescing\<close>

text \<open>
  Claim C1 (request coalescing), as amended. The constructor does not look at the
  registry before it enqueues. Every request that reaches the generation step (its key
  is not cached, there is no artifact on disk, its file path is not empty) is added to
  the waiter set of its hash, whether or not that set is already open, and calls
  \<open>enqueueThumbnailsBatch\<close> exactly once, with the one-element batch of its file path,
  hash and size. The number of enqueue calls is the number of such requests.
\<close>

theorem every_generation_request_enqueues:
  assumes "registry_ok w" and "heap w this = None"
    and "\<not> hasCachedImage (cacheKeyOf fileHash sz) w"
    and "\<not> (getThumbnailPath e fileHash sz \<noteq> [] \<and> fileExists e (getThumbnailPath e fileHash sz))"
    and "filePath \<noteq> []"
  shows "enqueued (ThumbnailResponse_new e this fileHash filePath sz requestedSize w) =
           enqueued w @ [[\<lparr>req_filePath = filePath, req_fileHash = fileHash, req_size = sz\<rparr>]] \<and>
         m_pendingRequests (ThumbnailResponse_new e this fileHash filePath sz requestedSize w) fileHash =
           Some ((case m_pendingRequests w fileHash of None \<Rightarrow> [] | Some s \<Rightarrow> s) @ [this]) \<and>
         heap (ThumbnailResponse_new e this fileHash filePath sz requestedSize w) this =
           Some \<lparr>m_fileHash = fileHash, m_filePath = filePath, m_size = sz,
                 m_requestedSize = requestedSize, m_image = QImage_null,
                 m_errorString = [], m_finished = False\<rparr>"
proof -
  have "this \<notin> set (case m_pendingRequests w fileHash of None \<Rightarrow> [] | Some s \<Rightarrow> s)"
    using registry_ok_not_waiting [OF assms(1,2)] by (auto split: option.splits)
  then show ?thesis
    unfolding new_enqueue [OF assms(3,4,5)]
    by (simp add: addPending_lookup qset_insert_def new_response_def)
qed

text \<open>
  A second request for the same hash and size, made while the first one waits, enqueues
  again.
\<close>

theorem every_generation_request_enqueues_witness:
  "enqueued (ThumbnailResponse_new sample_env 2 ''h'' ''/a.jpg'' ''medium'' no_size
      (ThumbnailResponse_new sample_env 1 ''h'' ''/a.jpg'' ''medium'' no_size ThumbnailProvider_init)) =
     enqueued (ThumbnailResponse_new sample_env 1 ''h'' ''/a.jpg'' ''medium'' no_size ThumbnailProvider_init)
       @ [[\<lparr>req_filePath = ''/a.jpg'', req_fileHash = ''h'', req_size = ''medium''\<rparr>]]"
proof -
  let ?w1 = "ThumbnailResponse_new sample_env 1 ''h'' ''/a.jpg'' ''medium'' no_size ThumbnailProvider_init"
  have nodisk: "\<not> (getThumbnailPath sample_env ''h'' ''medium'' \<noteq> [] \<and>
      fileExists sample_env (getThumbnailPath sample_env ''h'' ''medium''))" by simp
  have w1: "?w1 = (addPendingRequest ''h'' 1
        (ThumbnailProvider_init\<lparr>heap := (heap ThumbnailProvider_init)(1 \<mapsto> new_response ''h'' ''/a.jpg'' ''medium'' no_size)\<rparr>))
     \<lparr>enqueued := enqueued ThumbnailProvider_init @ [[\<lparr>req_filePath = ''/a.jpg'', req_fileHash = ''h'', req_size = ''medium''\<rparr>]]\<rparr>"
    by (rule new_enqueue [OF hasCachedImage_init nodisk]) simp
  have ok1: "registry_ok ?w1"
    by (rule registry_ok_new [OF registry_ok_init]) simp
  have fresh: "heap ?w1 2 = None" unfolding w1 by simp
  have miss: "\<not> hasCachedImage (cacheKeyOf ''h'' ''medium'') ?w1"
    unfolding w1 by (simp add: hasCachedImage_def qcache_contains_def)
  have ne: "''/a.jpg'' \<noteq> []" by simp
  from every_generation_request_enqueues [OF ok1 fresh miss nodisk ne]
  show ?thesis by simp
qed

text \<open>
  Claim C1 as stated fails: after one request for \<open>(h, medium)\<close> the waiter set of \<open>h\<close> is
  open, and a second request for the same pair issued then leaves two identical batches
  in the log of enqueue calls, one per caller.
\<close>

theorem coalescing_counterexample:
  "m_pendingRequests
     (run sample_env [RequestImageResponse 1 ''h|%2Fa.jpg/medium'' no_size] ThumbnailProvider_init) ''h''
     = Some [1] \<and>
   enqueued
     (run sample_env [RequestImageResponse 1 ''h|%2Fa.jpg/medium'' no_size,
                      RequestImageResponse 2 ''h|%2Fa.jpg/medium'' no_size] ThumbnailProvider_init)
     = [[\<lparr>req_filePath = ''/a.jpg'', req_fileHash = ''h'', req_size = ''medium''\<rparr>],
        [\<lparr>req_filePath = ''/a.jpg'', req_fileHash = ''h'', req_size = ''medium''\<rparr>]]"
proof -
  have p: "parse_request_id ''h|%2Fa.jpg/medium'' = (''h'', ''/a.jpg'', ''medium'')"
    by (simp add: parse_request_id_def value_at_def hexValue_def Let_def char_of_def bit_0)
  have nodisk: "\<not> (getThumbnailPath sample_env ''h'' ''medium'' \<noteq> [] \<and>
      fileExists sample_env (getThumbnailPath sample_env ''h'' ''medium''))" by simp
  show ?thesis
    by (simp add: run_def requestImageResponse_def p new_enqueue [OF _ nodisk]
        addPending_lookup qset_insert_def hasCachedImage_def qcache_contains_def)
qed

section \<open>C2: completion fan-out\<close>

lemma deliver_all_heap:
  "distinct xs \<Longrightarrow>
   heap (deliver_all e path isP b64 uo w xs) x =
     (if x \<in> set xs then heap (handleThumbnailReady e x path isP b64 uo w) x else heap w x)"
proof (induction xs arbitrary: w)
  case Nil
  then show ?case by (simp add: deliver_all_def)
next
  case (Cons y ys)
  let ?w1 = "handleThumbnailReady e y path isP b64 uo w"
  have step: "deliver_all e path isP b64 uo w (y # ys) = deliver_all e path isP b64 uo ?w1 ys"
    by (simp add: deliver_all_def)
  from Cons.prems have d: "distinct ys" and ny: "y \<notin> set ys" by simp_all
  have ih: "heap (deliver_all e path isP b64 uo ?w1 ys) x =
     (if x \<in> set ys then heap (handleThumbnailReady e x path isP b64 uo ?w1) x else heap ?w1 x)"
    by (rule Cons.IH [OF d])
  show ?case
  proof (cases "x = y")
    case True
    then show ?thesis using ny ih unfolding step by simp
  next
    case False
    then have same: "heap ?w1 x = heap w x" by (simp add: handle_heap_other)
    have "heap (handleThumbnailReady e x path isP b64 uo ?w1) x
        = heap (handleThumbnailReady e x path isP b64 uo w) x"
      by (simp add: handle_heap_self same)
    then show ?thesis using False same ih unfolding step by simp
  qed
qed

lemma deliver_all_pending_none:
  "m_pendingRequests w h = None \<Longrightarrow> m_pendingRequests (deliver_all e path isP b64 uo w xs) h = None"
  unfolding deliver_all_def
  by (induction xs arbitrary: w) (simp_all add: handle_pending_none)

lemma notify_eq:
  "m_pendingRequests w h = Some s \<Longrightarrow>
   notifyThumbnailReady e h sz path isP b64 uo w =
     deliver_all e path isP b64 uo (w\<lparr>m_pendingRequests := (m_pendingRequests w)(h := None)\<rparr>) s"
  by (simp add: notifyThumbnailReady_def deliver_all_def)

lemma notify_noop:
  "m_pendingRequests w h = None \<Longrightarrow> notifyThumbnailReady e h sz path isP b64 uo w = w"
  by (simp add: notifyThumbnailReady_def)

text \<open>
  Claim C2 (completion fan-out by identity, drained once). When a notification arrives for
  a hash that has a waiter set, the entry of the hash is gone from the registry
  afterwards, and every response of the set, whatever its size class and whatever size
  the notification names, ends as \<open>handleThumbnailReady\<close> leaves it on the payload of the
  notification. A second notification for the same hash, with any payload, changes
  nothing.
\<close>

theorem completion_fans_out_by_identity:
  assumes "registry_ok w" and "m_pendingRequests w fileHash = Some s"
  shows "m_pendingRequests
           (notifyThumbnailReady e fileHash sz path isPlaceholder placeholderPayload useOriginal w)
           fileHash = None \<and>
         (\<forall>x \<in> set s. \<exists>r. heap w x = Some r \<and> \<not> m_finished r \<and>
            heap (notifyThumbnailReady e fileHash sz path isPlaceholder placeholderPayload useOriginal w) x
              = Some (completion_outcome e path isPlaceholder placeholderPayload r) \<and>
            m_finished (completion_outcome e path isPlaceholder placeholderPayload r)) \<and>
         notifyThumbnailReady e fileHash sz' path' isPlaceholder' placeholderPayload' useOriginal'
           (notifyThumbnailReady e fileHash sz path isPlaceholder placeholderPayload useOriginal w)
           = notifyThumbnailReady e fileHash sz path isPlaceholder placeholderPayload useOriginal w"
proof -
  let ?w0 = "w\<lparr>m_pendingRequests := (m_pendingRequests w)(fileHash := None)\<rparr>"
  let ?w' = "notifyThumbnailReady e fileHash sz path isPlaceholder placeholderPayload useOriginal w"
  have eq: "?w' = deliver_all e path isPlaceholder placeholderPayload useOriginal ?w0 s"
    by (rule notify_eq [OF assms(2)])
  from assms have d: "distinct s" and
    el: "\<forall>x\<in>set s. \<exists>r. heap w x = Some r \<and> \<not> m_finished r \<and> m_fileHash r = fileHash"
    unfolding registry_ok_def by blast+
  have drained: "m_pendingRequests ?w' fileHash = None"
    unfolding eq by (rule deliver_all_pending_none) simp
  have each: "\<forall>x \<in> set s. \<exists>r. heap w x = Some r \<and> \<not> m_finished r \<and>
      heap ?w' x = Some (completion_outcome e path isPlaceholder placeholderPayload r)"
  proof
    fix x assume x: "x \<in> set s"
    with el obtain r where r: "heap w x = Some r" "\<not> m_finished r" by blast
    have "heap ?w' x = heap (handleThumbnailReady e x path isPlaceholder placeholderPayload useOriginal ?w0) x"
      unfolding eq using x by (simp add: deliver_all_heap [OF d])
    also have "\<dots> = Some (completion_outcome e path isPlaceholder placeholderPayload r)"
      using r by (simp add: handle_heap_self)
    finally show "\<exists>r. heap w x = Some r \<and> \<not> m_finished r \<and>
      heap ?w' x = Some (completion_outcome e path isPlaceholder placeholderPayload r)"
      using r by blast
  qed
  from drained each notify_noop [OF drained] completion_outcome_finished show ?thesis by blast
qed

text \<open>
  Two waiters for the hash \<open>h\<close>, one for \<open>medium\<close> and one for \<open>small\<close>, are both resolved by
  one notification that names \<open>small\<close>.
\<close>

theorem completion_fans_out_by_identity_witness:
  "m_pendingRequests
     (notifyThumbnailReady sample_env ''h'' ''small'' ''/cache/h.jpg'' False [] False
        (ThumbnailResponse_new sample_env 2 ''h'' ''/a.jpg'' ''small'' \<lparr>size_width = 5, size_height = 5\<rparr>
          (ThumbnailResponse_new sample_env 1 ''h'' ''/a.jpg'' ''medium'' no_size ThumbnailProvider_init)))
     ''h'' = None \<and>
   heap
     (notifyThumbnailReady sample_env ''h'' ''small'' ''/cache/h.jpg'' False [] False
        (ThumbnailResponse_new sample_env 2 ''h'' ''/a.jpg'' ''small'' \<lparr>size_width = 5, size_height = 5\<rparr>
          (ThumbnailResponse_new sample_env 1 ''h'' ''/a.jpg'' ''medium'' no_size ThumbnailProvider_init)))
     1 = Some ((new_response ''h'' ''/a.jpg'' ''medium'' no_size)
                 \<lparr>m_image := QImage_pixels 10 10 [], m_finished := True\<rparr>) \<and>
   heap
     (notifyThumbnailReady sample_env ''h'' ''small'' ''/cache/h.jpg'' False [] False
        (ThumbnailResponse_new sample_env 2 ''h'' ''/a.jpg'' ''small'' \<lparr>size_width = 5, size_height = 5\<rparr>
          (ThumbnailResponse_new sample_env 1 ''h'' ''/a.jpg'' ''medium'' no_size ThumbnailProvider_init)))
     2 = Some ((new_response ''h'' ''/a.jpg'' ''small'' \<lparr>size_width = 5, size_height = 5\<rparr>)
                 \<lparr>m_image := QImage_pixels 5 5 [], m_finished := True\<rparr>)"
proof -
  let ?rs = "\<lparr>size_width = 5, size_height = 5\<rparr>"
  let ?w = "ThumbnailResponse_new sample_env 2 ''h'' ''/a.jpg'' ''small'' ?rs
          (ThumbnailResponse_new sample_env 1 ''h'' ''/a.jpg'' ''medium'' no_size ThumbnailProvider_init)"
  have pend: "m_pendingRequests ?w ''h'' = Some [1, 2]" unfolding two_waiters by simp
  have h1: "heap ?w 1 = Some (new_response ''h'' ''/a.jpg'' ''medium'' no_size)"
    unfolding two_waiters by simp
  have h2: "heap ?w 2 = Some (new_response ''h'' ''/a.jpg'' ''small'' ?rs)"
    unfolding two_waiters by simp
  let ?w' = "notifyThumbnailReady sample_env ''h'' ''small'' ''/cache/h.jpg'' False [] False ?w"
  note t = completion_fans_out_by_identity [OF registry_ok_two_waiters pend,
      of sample_env "''small''" "''/cache/h.jpg''" False "[]" False]
  from t have drained: "m_pendingRequests ?w' ''h'' = None" by blast
  from t have each: "\<forall>x \<in> set [1, 2]. \<exists>r. heap ?w x = Some r \<and> \<not> m_finished r \<and>
      heap ?w' x = Some (completion_outcome sample_env ''/cache/h.jpg'' False [] r)" by blast
  have "(1::nat) \<in> set [1, 2]" by simp
  with each h1 have r1: "heap ?w' 1 =
      Some (completion_outcome sample_env ''/cache/h.jpg'' False []
              (new_response ''h'' ''/a.jpg'' ''medium'' no_size))"
    by (metis option.inject)
  have "(2::nat) \<in> set [1, 2]" by simp
  with each h2 have r2: "heap ?w' 2 =
      Some (completion_outcome sample_env ''/cache/h.jpg'' False []
              (new_response ''h'' ''/a.jpg'' ''small'' ?rs))"
    by (metis option.inject)
  have o1: "completion_outcome sample_env ''/cache/h.jpg'' False []
              (new_response ''h'' ''/a.jpg'' ''medium'' no_size)
      = (new_response ''h'' ''/a.jpg'' ''medium'' no_size)
                 \<lparr>m_image := QImage_pixels 10 10 [], m_finished := True\<rparr>"
    by (simp add: completion_outcome_def read_outcome_def sample_env_readImage isNull_def
        isValid_def no_size_def new_response_def)
  have o2: "completion_outcome sample_env ''/cache/h.jpg'' False []
              (new_response ''h'' ''/a.jpg'' ''small'' ?rs)
      = (new_response ''h'' ''/a.jpg'' ''small'' ?rs)
                 \<lparr>m_image := QImage_pixels 5 5 [], m_finished := True\<rparr>"
    by (simp add: completion_outcome_def read_outcome_def sample_env_readImage isNull_def
        isValid_def new_response_def)
  show ?thesis using drained r1 r2 unfolding o1 o2 by blast
qed

section \<open>C3: cache bound and eviction\<close>

text \<open>
  Claim C3 (cache bound and LRU eviction). A new provider's cache has capacity 200.
  After any sequence of calls on a new provider the cache holds no more entries than its
  capacity. When \<open>cap + 1\<close> images are cached under distinct keys in an empty cache of
  capacity \<open>cap\<close>, the cache ends with exactly \<open>cap\<close> entries: the key cached first,
  which is the least recently used one, is gone and every later key is present. In
  general, caching a new key in a full cache drops the entry at the tail of the recency
  chain and nothing else.
\<close>

theorem cache_bound_and_lru_eviction:
  "cache_capacity ThumbnailProvider_init = 200 \<and>
   int (cache_count (run e calls ThumbnailProvider_init))
      \<le> max 0 (cache_capacity (run e calls ThumbnailProvider_init)) \<and>
   (0 \<le> cap \<and> distinct (map fst kvs) \<and> int (length kvs) = cap + 1 \<longrightarrow>
      cache_count (insert_all kvs (setCacheSize cap (clearCache w))) = nat cap \<and>
      \<not> hasCachedImage (fst (hd kvs)) (insert_all kvs (setCacheSize cap (clearCache w))) \<and>
      (\<forall>k \<in> set (map fst (tl kvs)).
          hasCachedImage k (insert_all kvs (setCacheSize cap (clearCache w))))) \<and>
   (1 \<le> cache_capacity w \<and> int (cache_count w) = cache_capacity w \<and> \<not> hasCachedImage key w \<longrightarrow>
      chain (m_imageCache (cacheImage key img w)) = (key, img) # butlast (chain (m_imageCache w)))"
proof (intro conjI impI)
  assume full: "1 \<le> cache_capacity w \<and> int (cache_count w) = cache_capacity w \<and>
      \<not> hasCachedImage key w"
  then have fresh: "key \<notin> fst ` set (chain (m_imageCache w))"
    by (simp add: hasCachedImage_def qcache_contains_def map_of_eq_None_iff)
  from full have len: "nat (mx (m_imageCache w) - 1) = length (chain (m_imageCache w)) - 1"
    unfolding cache_capacity_def cache_count_def by arith
  from full have "1 \<le> mx (m_imageCache w)" by (simp add: cache_capacity_def)
  from insert_chain_fresh [OF this fresh, of img]
  show "chain (m_imageCache (cacheImage key img w)) = (key, img) # butlast (chain (m_imageCache w))"
    by (simp add: len butlast_conv_take)
next
  show "cache_capacity ThumbnailProvider_init = 200"
    by (simp add: cache_capacity_def ThumbnailProvider_init_def DEFAULT_CACHE_SIZE_def)
next
  show "int (cache_count (run e calls ThumbnailProvider_init))
      \<le> max 0 (cache_capacity (run e calls ThumbnailProvider_init))"
    using cache_inv_run [OF cache_inv_init, of e calls]
    by (simp add: cache_inv_def cache_bounded_def cache_count_def cache_capacity_def)
next
  let ?w0 = "setCacheSize cap (clearCache w)"
  let ?w' = "insert_all kvs ?w0"
  assume a: "0 \<le> cap \<and> distinct (map fst kvs) \<and> int (length kvs) = cap + 1"
  then obtain kv rest where kvs: "kvs = kv # rest" by (cases kvs) auto
  have len: "length rest = nat cap" using a kvs by auto
  have ch: "chain (m_imageCache ?w') = rev rest"
  proof (cases "cap = 0")
    case True
    then have "chain (m_imageCache ?w') = []"
      by (intro insert_all_zero) (simp_all add: empty_cache_facts)
    then show ?thesis using len True by simp
  next
    case False
    then have "chain (m_imageCache ?w') = take (nat cap) (rev kvs)"
      using a insert_all_chain [of ?w0 kvs] by (simp add: empty_cache_facts)
    then show ?thesis using len by (simp add: kvs)
  qed
  show "cache_count ?w' = nat cap" by (simp add: cache_count_def ch len)
  have sel: "hd kvs = kv" "tl kvs = rest" by (simp_all add: kvs)
  have "fst kv \<notin> fst ` set rest" using a kvs by auto
  then show "\<not> hasCachedImage (fst (hd kvs)) ?w'"
    by (simp add: hasCachedImage_def qcache_contains_def ch sel map_of_eq_None_iff)
  show "\<forall>k \<in> set (map fst (tl kvs)). hasCachedImage k ?w'"
    by (simp add: hasCachedImage_def qcache_contains_def ch sel map_of_eq_None_iff)
qed

text \<open>
  Three keys cached in an empty cache of capacity 2: the first key is evicted, and the
  third insertion drops exactly the tail of the chain.
\<close>

theorem cache_bound_and_lru_eviction_witness:
  "cache_count (insert_all [(''a/medium'', QImage_pixels 4 4 [7]), (''b/medium'', QImage_pixels 4 4 [8]),
        (''c/medium'', QImage_pixels 4 4 [9])] (setCacheSize 2 (clearCache ThumbnailProvider_init))) = 2 \<and>
   \<not> hasCachedImage ''a/medium''
      (insert_all [(''a/medium'', QImage_pixels 4 4 [7]), (''b/medium'', QImage_pixels 4 4 [8]),
        (''c/medium'', QImage_pixels 4 4 [9])] (setCacheSize 2 (clearCache ThumbnailProvider_init))) \<and>
   hasCachedImage ''b/medium''
      (insert_all [(''a/medium'', QImage_pixels 4 4 [7]), (''b/medium'', QImage_pixels 4 4 [8]),
        (''c/medium'', QImage_pixels 4 4 [9])] (setCacheSize 2 (clearCache ThumbnailProvider_init))) \<and>
   hasCachedImage ''c/medium''
      (insert_all [(''a/medium'', QImage_pixels 4 4 [7]), (''b/medium'', QImage_pixels 4 4 [8]),
        (''c/medium'', QImage_pixels 4 4 [9])] (setCacheSize 2 (clearCache ThumbnailProvider_init))) \<and>
   chain (m_imageCache (cacheImage ''c/medium'' (QImage_pixels 4 4 [9])
      (insert_all [(''a/medium'', QImage_pixels 4 4 [7]), (''b/medium'', QImage_pixels 4 4 [8])]
         (setCacheSize 2 (clearCache ThumbnailProvider_init)))))
     = [(''c/medium'', QImage_pixels 4 4 [9]), (''b/medium'', QImage_pixels 4 4 [8])]"
proof -
  let ?kvs = "[(''a/medium'', QImage_pixels 4 4 [7]), (''b/medium'', QImage_pixels 4 4 [8]),
        (''c/medium'', QImage_pixels 4 4 [9])]"
  let ?w2 = "insert_all [(''a/medium'', QImage_pixels 4 4 [7]), (''b/medium'', QImage_pixels 4 4 [8])]
         (setCacheSize 2 (clearCache ThumbnailProvider_init))"
  have hyp: "(0::int) \<le> 2 \<and> distinct (map fst ?kvs) \<and> int (length ?kvs) = 2 + 1" by simp
  have ch2: "chain (m_imageCache ?w2)
      = [(''b/medium'', QImage_pixels 4 4 [8]), (''a/medium'', QImage_pixels 4 4 [7])]"
    using insert_all_chain [of "setCacheSize 2 (clearCache ThumbnailProvider_init)"
        "[(''a/medium'', QImage_pixels 4 4 [7]), (''b/medium'', QImage_pixels 4 4 [8])]"]
    by (simp add: empty_cache_facts)
  have full: "1 \<le> cache_capacity ?w2 \<and> int (cache_count ?w2) = cache_capacity ?w2 \<and>
      \<not> hasCachedImage ''c/medium'' ?w2"
    unfolding cache_capacity_def cache_count_def hasCachedImage_def qcache_contains_def ch2
    by (simp add: empty_cache_facts)
  note t = cache_bound_and_lru_eviction [where e = sample_env and calls = "[]" and cap = 2
      and kvs = ?kvs and w = ThumbnailProvider_init]
  from t hyp have first: "cache_count (insert_all ?kvs (setCacheSize 2 (clearCache ThumbnailProvider_init))) = nat 2 \<and>
      \<not> hasCachedImage (fst (hd ?kvs)) (insert_all ?kvs (setCacheSize 2 (clearCache ThumbnailProvider_init))) \<and>
      (\<forall>k \<in> set (map fst (tl ?kvs)).
          hasCachedImage k (insert_all ?kvs (setCacheSize 2 (clearCache ThumbnailProvider_init))))"
    by blast
  from cache_bound_and_lru_eviction [where w = ?w2 and key = "''c/medium''"
      and img = "QImage_pixels 4 4 [9]"] full
  have "chain (m_imageCache (cacheImage ''c/medium'' (QImage_pixels 4 4 [9]) ?w2))
      = (''c/medium'', QImage_pixels 4 4 [9]) # butlast (chain (m_imageCache ?w2))"
    by blast
  then show ?thesis using first by (simp add: ch2)
qed

section \<open>C4: missing source\<close>

text \<open>
  Claim C4 (missing-source failure). Take a request constructed at a free address in a
  state whose registry is well formed. If its key is not in the image cache, the engine
  has no existing artifact on disk for it, and its file path is empty, then the request
  ends finished with the error string \<open>Missing file path for thumbnail request\<close> and no
  image, and the pending registry, the log of enqueue calls and the image cache are what
  they were before: no waiter was registered and nothing was enqueued.
\<close>

theorem missing_source_fails_without_registering:
  assumes "registry_ok w" and "heap w this = None"
    and "\<not> hasCachedImage (cacheKeyOf fileHash sz) w"
    and "\<not> (getThumbnailPath e fileHash sz \<noteq> [] \<and> fileExists e (getThumbnailPath e fileHash sz))"
  shows "heap (ThumbnailResponse_new e this fileHash [] sz requestedSize w) this =
           Some \<lparr>m_fileHash = fileHash, m_filePath = [], m_size = sz,
                 m_requestedSize = requestedSize, m_image = QImage_null,
                 m_errorString = ''Missing file path for thumbnail request'',
                 m_finished = True\<rparr> \<and>
         m_pendingRequests (ThumbnailResponse_new e this fileHash [] sz requestedSize w)
           = m_pendingRequests w \<and>
         enqueued (ThumbnailResponse_new e this fileHash [] sz requestedSize w) = enqueued w \<and>
         m_imageCache (ThumbnailResponse_new e this fileHash [] sz requestedSize w) = m_imageCache w"
proof -
  let ?w0 = "w\<lparr>heap := (heap w)(this \<mapsto> new_response fileHash [] sz requestedSize)\<rparr>"
  have eq: "ThumbnailResponse_new e this fileHash [] sz requestedSize w =
      finishWithError this ''Missing file path for thumbnail request'' ?w0"
    by (rule new_missing [OF assms(3,4)]) simp
  have ok0: "registry_ok ?w0" by (rule registry_ok_alloc [OF assms(1,2)])
  have "\<And>s. m_pendingRequests ?w0 fileHash = Some s \<Longrightarrow> this \<notin> set s"
    using registry_ok_not_waiting [OF assms(1,2)] by simp
  from removePending_absent [OF ok0 this]
  have "m_pendingRequests (removePendingRequest fileHash this ?w0) = m_pendingRequests w" by simp
  then show ?thesis unfolding eq
    by (simp add: finishWithError_heap finishWithError_pending finishWithError_fields
        new_response_def)
qed

text \<open>
  The hypotheses of C4 hold for a request for the hash \<open>x\<close> without a file path on a
  new provider.
\<close>

theorem missing_source_fails_without_registering_witness:
  "heap (ThumbnailResponse_new sample_env 1 ''x'' [] ''medium'' no_size ThumbnailProvider_init) 1 =
           Some \<lparr>m_fileHash = ''x'', m_filePath = [], m_size = ''medium'',
                 m_requestedSize = no_size, m_image = QImage_null,
                 m_errorString = ''Missing file path for thumbnail request'',
                 m_finished = True\<rparr> \<and>
   m_pendingRequests (ThumbnailResponse_new sample_env 1 ''x'' [] ''medium'' no_size ThumbnailProvider_init)
     = m_pendingRequests ThumbnailProvider_init \<and>
   enqueued (ThumbnailResponse_new sample_env 1 ''x'' [] ''medium'' no_size ThumbnailProvider_init)
     = enqueued ThumbnailProvider_init \<and>
   m_imageCache (ThumbnailResponse_new sample_env 1 ''x'' [] ''medium'' no_size ThumbnailProvider_init)
     = m_imageCache ThumbnailProvider_init"
proof -
  have h1: "heap ThumbnailProvider_init 1 = None" by simp
  have h2: "\<not> hasCachedImage (cacheKeyOf ''x'' ''medium'') ThumbnailProvider_init" by simp
  have h3: "\<not> (getThumbnailPath sample_env ''x'' ''medium'' \<noteq> [] \<and>
      fileExists sample_env (getThumbnailPath sample_env ''x'' ''medium''))" by simp
  show ?thesis
    by (rule missing_source_fails_without_registering [OF registry_ok_init h1 h2 h3])
qed

section \<open>C5: placeholder precedence\<close>

text \<open>
  Claim C5 (placeholder precedence). On a live response that is already finished
  \<open>handleThumbnailReady\<close> does nothing. On one that is not finished: when the payload is
  flagged as a placeholder and its placeholder bytes are not empty, the call is
  \<open>loadFromBase64\<close> on those bytes and the response ends as the decoded placeholder says,
  whatever the path is; otherwise, when the path is not empty, the call is
  \<open>loadFromPath\<close> on the path; and when neither applies the response fails with
  \<open>No thumbnail available\<close>.
\<close>

theorem placeholder_takes_precedence:
  assumes "heap w this = Some r"
  shows "(m_finished r \<longrightarrow>
            handleThumbnailReady e this path isPlaceholder placeholderPayload useOriginal w = w) \<and>
         (\<not> m_finished r \<and> isPlaceholder \<and> placeholderPayload \<noteq> [] \<longrightarrow>
            handleThumbnailReady e this path isPlaceholder placeholderPayload useOriginal w
              = loadFromBase64 e this placeholderPayload w \<and>
            heap (handleThumbnailReady e this path isPlaceholder placeholderPayload useOriginal w) this
              = Some (placeholder_outcome e placeholderPayload r)) \<and>
         (\<not> m_finished r \<and> \<not> (isPlaceholder \<and> placeholderPayload \<noteq> []) \<and> path \<noteq> [] \<longrightarrow>
            handleThumbnailReady e this path isPlaceholder placeholderPayload useOriginal w
              = loadFromPath e this path w \<and>
            heap (handleThumbnailReady e this path isPlaceholder placeholderPayload useOriginal w) this
              = Some (read_outcome e path
                  (if isValid (m_requestedSize r) then Some (m_requestedSize r) else None) r)) \<and>
         (\<not> m_finished r \<and> \<not> (isPlaceholder \<and> placeholderPayload \<noteq> []) \<and> path = [] \<longrightarrow>
            heap (handleThumbnailReady e this path isPlaceholder placeholderPayload useOriginal w) this
              = Some (r\<lparr>m_errorString := ''No thumbnail available'', m_finished := True\<rparr>))"
proof (cases "m_finished r")
  case True
  with assms show ?thesis by (simp add: handleThumbnailReady_def)
next
  case False
  with assms handleThumbnailReady_heap [OF assms False, of e path isPlaceholder placeholderPayload useOriginal]
  show ?thesis by (auto simp: handleThumbnailReady_def)
qed

text \<open>
  The branches of C5 on a waiting request: a placeholder together with a path, a path
  alone, neither, and a second completion on the response once it is finished.
\<close>

theorem placeholder_takes_precedence_witness:
  "heap (handleThumbnailReady sample_env 1 ''/cache/h.jpg'' True ''ok'' False
      (ThumbnailResponse_new sample_env 1 ''h'' ''/a.jpg'' ''medium'' no_size ThumbnailProvider_init)) 1
     = Some ((new_response ''h'' ''/a.jpg'' ''medium'' no_size)
          \<lparr>m_image := QImage_pixels 8 8 [], m_finished := True\<rparr>) \<and>
   heap (handleThumbnailReady sample_env 1 ''/cache/h.jpg'' False ''ok'' False
      (ThumbnailResponse_new sample_env 1 ''h'' ''/a.jpg'' ''medium'' no_size ThumbnailProvider_init)) 1
     = Some ((new_response ''h'' ''/a.jpg'' ''medium'' no_size)
          \<lparr>m_image := QImage_pixels 10 10 [], m_finished := True\<rparr>) \<and>
   heap (handleThumbnailReady sample_env 1 [] False ''ok'' False
      (ThumbnailResponse_new sample_env 1 ''h'' ''/a.jpg'' ''medium'' no_size ThumbnailProvider_init)) 1
     = Some ((new_response ''h'' ''/a.jpg'' ''medium'' no_size)
          \<lparr>m_errorString := ''No thumbnail available'', m_finished := True\<rparr>) \<and>
   handleThumbnailReady sample_env 1 ''/cache/h.jpg'' False [] False
     (handleThumbnailReady sample_env 1 [] True ''ok'' False
        (ThumbnailResponse_new sample_env 1 ''h'' ''/a.jpg'' ''medium'' no_size ThumbnailProvider_init))
     = handleThumbnailReady sample_env 1 [] True ''ok'' False
        (ThumbnailResponse_new sample_env 1 ''h'' ''/a.jpg'' ''medium'' no_size ThumbnailProvider_init)"
proof -
  let ?w = "ThumbnailResponse_new sample_env 1 ''h'' ''/a.jpg'' ''medium'' no_size ThumbnailProvider_init"
  let ?r = "new_response ''h'' ''/a.jpg'' ''medium'' no_size"
  have live: "heap ?w 1 = Some ?r" unfolding waiting_world by simp
  have unfinished: "\<not> m_finished ?r" by (simp add: new_response_def)
  note t = placeholder_takes_precedence [OF live]
  have one: "heap (handleThumbnailReady sample_env 1 ''/cache/h.jpg'' True ''ok'' False ?w) 1
      = Some (placeholder_outcome sample_env ''ok'' ?r)"
  proof -
    have "\<not> m_finished ?r \<and> True \<and> ''ok'' \<noteq> []" using unfinished by simp
    with t [where e = sample_env and path = "''/cache/h.jpg''" and isPlaceholder = True
        and placeholderPayload = "''ok''" and useOriginal = False] show ?thesis by blast
  qed
  have two: "heap (handleThumbnailReady sample_env 1 ''/cache/h.jpg'' False ''ok'' False ?w) 1
      = Some (read_outcome sample_env ''/cache/h.jpg''
            (if isValid (m_requestedSize ?r) then Some (m_requestedSize ?r) else None) ?r)"
  proof -
    have "\<not> m_finished ?r \<and> \<not> (False \<and> ''ok'' \<noteq> []) \<and> ''/cache/h.jpg'' \<noteq> []"
      using unfinished by simp
    with t [where e = sample_env and path = "''/cache/h.jpg''" and isPlaceholder = False
        and placeholderPayload = "''ok''" and useOriginal = False] show ?thesis by blast
  qed
  have three: "heap (handleThumbnailReady sample_env 1 [] False ''ok'' False ?w) 1
      = Some (?r\<lparr>m_errorString := ''No thumbnail available'', m_finished := True\<rparr>)"
  proof -
    have "\<not> m_finished ?r \<and> \<not> (False \<and> ''ok'' \<noteq> []) \<and> ([]::qstring) = []"
      using unfinished by simp
    with t [where e = sample_env and path = "[]" and isPlaceholder = False
        and placeholderPayload = "''ok''" and useOriginal = False] show ?thesis by blast
  qed
  let ?w' = "handleThumbnailReady sample_env 1 [] True ''ok'' False ?w"
  have live': "heap ?w' 1 = Some (placeholder_outcome sample_env ''ok'' ?r)"
  proof -
    have "\<not> m_finished ?r \<and> True \<and> ''ok'' \<noteq> []" using unfinished by simp
    with t [where e = sample_env and path = "[]" and isPlaceholder = True
        and placeholderPayload = "''ok''" and useOriginal = False] show ?thesis by blast
  qed
  have fin: "m_finished (placeholder_outcome sample_env ''ok'' ?r)"
    by (simp add: placeholder_outcome_def)
  from placeholder_takes_precedence [OF live', where e = sample_env and path = "''/cache/h.jpg''"
      and isPlaceholder = False and placeholderPayload = "[]" and useOriginal = False] fin
  have four: "handleThumbnailReady sample_env 1 ''/cache/h.jpg'' False [] False ?w' = ?w'" by blast
  show ?thesis using one two three four
    by (simp add: placeholder_outcome_def read_outcome_def sample_env_readImage isNull_def
        isValid_def no_size_def new_response_def)
qed

section \<open>C6: target dimension\<close>

lemma read_outcome_size:
  assumes "honours_scaled_size e" and "isValid sz"
    and "\<not> isNull (fst (readImage e path (Some sz)))"
  shows "m_finished (read_outcome e path (Some sz) r) \<and>
         imageSize (m_image (read_outcome e path (Some sz) r)) = sz"
proof -
  obtain img err where rd: "readImage e path (Some sz) = (img, err)"
    by (cases "readImage e path (Some sz)")
  from assms(3) rd have nn: "\<not> isNull img" by simp
  from assms(1,2,3) have "imageSize (fst (readImage e path (Some sz))) = sz"
    unfolding honours_scaled_size_def by blast
  then have "imageSize img = sz" using rd by simp
  then show ?thesis using nn rd by (simp add: read_outcome_def)
qed

lemma honours_scaled_size_sample: "honours_scaled_size sample_env"
  unfolding honours_scaled_size_def
proof (intro allI impI)
  fix path sz
  assume v: "isValid sz"
    and nn: "\<not> isNull (fst (readImage sample_env path (Some sz)))"
  have known: "path = ''/cache/d.jpg'' \<or> path = ''/cache/h.jpg''"
  proof (rule ccontr)
    assume "\<not> (path = ''/cache/d.jpg'' \<or> path = ''/cache/h.jpg'')"
    then have "readImage sample_env path (Some sz) = (QImage_null, ''file not found'')"
      by (simp add: sample_env_readImage)
    with nn show False by (simp add: isNull_def)
  qed
  then have "fst (readImage sample_env path (Some sz))
      = QImage_pixels (nat (size_width sz)) (nat (size_height sz)) []"
    by (auto simp: sample_env_readImage)
  then show "imageSize (fst (readImage sample_env path (Some sz))) = sz"
    using v by (simp add: isValid_def)
qed

text \<open>
  Claim C6 (target-dimension decode policy), as amended. Decoding from a file path, both
  for an artifact found on disk by the constructor and for a completion that carries a
  path, hands the requested size of the request to the reader as its scaled size when
  that size is valid, and sets no scaled size when it is not; the response ends with
  what the reader returns for it (the image, or the reader's error string when the image
  is null). The size is passed on unconditionally: it is not compared with the natural
  size of the source. So with a reader that does what \<open>QImageReader\<close> documents for
  \<open>setScaledSize\<close>, a request with a valid requested size whose file decodes is delivered
  an image of exactly that size, be it smaller or larger than the source. Nothing is
  promised about the decoding of a placeholder payload.
\<close>

theorem path_decode_passes_target_dimension:
  "(\<not> hasCachedImage (cacheKeyOf fileHash sz) w \<and>
    getThumbnailPath e fileHash sz \<noteq> [] \<and> fileExists e (getThumbnailPath e fileHash sz) \<longrightarrow>
      heap (ThumbnailResponse_new e this fileHash filePath sz requestedSize w) this =
        Some (read_outcome e (getThumbnailPath e fileHash sz)
                (if isValid requestedSize then Some requestedSize else None)
                (new_response fileHash filePath sz requestedSize))) \<and>
   (heap w this = Some r \<and> \<not> m_finished r \<and>
    \<not> (isPlaceholder \<and> placeholderPayload \<noteq> []) \<and> path \<noteq> [] \<longrightarrow>
      heap (handleThumbnailReady e this path isPlaceholder placeholderPayload useOriginal w) this =
        Some (read_outcome e path
                (if isValid (m_requestedSize r) then Some (m_requestedSize r) else None) r)) \<and>
   (honours_scaled_size e \<and> isValid requestedSize \<and>
    \<not> hasCachedImage (cacheKeyOf fileHash sz) w \<and>
    getThumbnailPath e fileHash sz \<noteq> [] \<and> fileExists e (getThumbnailPath e fileHash sz) \<and>
    \<not> isNull (fst (readImage e (getThumbnailPath e fileHash sz) (Some requestedSize))) \<longrightarrow>
      (\<exists>r'. heap (ThumbnailResponse_new e this fileHash filePath sz requestedSize w) this = Some r' \<and>
            m_finished r' \<and> imageSize (m_image r') = requestedSize)) \<and>
   (honours_scaled_size e \<and> isValid (m_requestedSize r) \<and>
    heap w this = Some r \<and> \<not> m_finished r \<and>
    \<not> (isPlaceholder \<and> placeholderPayload \<noteq> []) \<and> path \<noteq> [] \<and>
    \<not> isNull (fst (readImage e path (Some (m_requestedSize r)))) \<longrightarrow>
      (\<exists>r'. heap (handleThumbnailReady e this path isPlaceholder placeholderPayload useOriginal w) this
               = Some r' \<and>
            m_finished r' \<and> imageSize (m_image r') = m_requestedSize r))"
proof -
  have disk: "heap (ThumbnailResponse_new e this fileHash filePath sz requestedSize w) this =
        Some (read_outcome e (getThumbnailPath e fileHash sz)
                (if isValid requestedSize then Some requestedSize else None)
                (new_response fileHash filePath sz requestedSize))"
    if a: "\<not> hasCachedImage (cacheKeyOf fileHash sz) w"
      "getThumbnailPath e fileHash sz \<noteq> []" "fileExists e (getThumbnailPath e fileHash sz)"
  proof -
    have "heap (w\<lparr>heap := (heap w)(this \<mapsto> new_response fileHash filePath sz requestedSize)\<rparr>) this
        = Some (new_response fileHash filePath sz requestedSize)" by simp
    from loadFromPath_heap [OF this] show ?thesis
      using a by (simp add: new_disk new_response_def)
  qed
  have completion: "heap (handleThumbnailReady e this path isPlaceholder placeholderPayload useOriginal w) this =
        Some (read_outcome e path
                (if isValid (m_requestedSize r) then Some (m_requestedSize r) else None) r)"
    if live: "heap w this = Some r" and nf: "\<not> m_finished r"
      and np: "\<not> (isPlaceholder \<and> placeholderPayload \<noteq> [])" and p: "path \<noteq> []"
    using handleThumbnailReady_heap [OF live nf, of e path isPlaceholder placeholderPayload useOriginal]
      np p by auto
  show ?thesis
  proof (intro conjI impI)
    assume "\<not> hasCachedImage (cacheKeyOf fileHash sz) w \<and>
      getThumbnailPath e fileHash sz \<noteq> [] \<and> fileExists e (getThumbnailPath e fileHash sz)"
    then show "heap (ThumbnailResponse_new e this fileHash filePath sz requestedSize w) this =
        Some (read_outcome e (getThumbnailPath e fileHash sz)
                (if isValid requestedSize then Some requestedSize else None)
                (new_response fileHash filePath sz requestedSize))"
      using disk by blast
  next
    assume "heap w this = Some r \<and> \<not> m_finished r \<and>
      \<not> (isPlaceholder \<and> placeholderPayload \<noteq> []) \<and> path \<noteq> []"
    then show "heap (handleThumbnailReady e this path isPlaceholder placeholderPayload useOriginal w) this =
        Some (read_outcome e path
                (if isValid (m_requestedSize r) then Some (m_requestedSize r) else None) r)"
      using completion by blast
  next
    assume a: "honours_scaled_size e \<and> isValid requestedSize \<and>
      \<not> hasCachedImage (cacheKeyOf fileHash sz) w \<and>
      getThumbnailPath e fileHash sz \<noteq> [] \<and> fileExists e (getThumbnailPath e fileHash sz) \<and>
      \<not> isNull (fst (readImage e (getThumbnailPath e fileHash sz) (Some requestedSize)))"
    then have h: "heap (ThumbnailResponse_new e this fileHash filePath sz requestedSize w) this =
        Some (read_outcome e (getThumbnailPath e fileHash sz) (Some requestedSize)
                (new_response fileHash filePath sz requestedSize))"
      using disk by simp
    from a read_outcome_size [of e requestedSize "getThumbnailPath e fileHash sz"
        "new_response fileHash filePath sz requestedSize"]
    show "\<exists>r'. heap (ThumbnailResponse_new e this fileHash filePath sz requestedSize w) this = Some r' \<and>
            m_finished r' \<and> imageSize (m_image r') = requestedSize"
      unfolding h by blast
  next
    assume a: "honours_scaled_size e \<and> isValid (m_requestedSize r) \<and>
      heap w this = Some r \<and> \<not> m_finished r \<and>
      \<not> (isPlaceholder \<and> placeholderPayload \<noteq> []) \<and> path \<noteq> [] \<and>
      \<not> isNull (fst (readImage e path (Some (m_requestedSize r))))"
    then have h: "heap (handleThumbnailReady e this path isPlaceholder placeholderPayload useOriginal w) this =
        Some (read_outcome e path (Some (m_requestedSize r)) r)"
      using completion by simp
    from a read_outcome_size [of e "m_requestedSize r" path r]
    show "\<exists>r'. heap (handleThumbnailReady e this path isPlaceholder placeholderPayload useOriginal w) this
               = Some r' \<and>
            m_finished r' \<and> imageSize (m_image r') = m_requestedSize r"
      unfolding h by blast
  qed
qed

text \<open>
  With the requested size 64 by 48 both path decodes deliver a 64 by 48 image in the
  sample environment, whose reader honours the scaled size.
\<close>

theorem path_decode_passes_target_dimension_witness:
  "isValid \<lparr>size_width = 64, size_height = 48\<rparr> \<and>
   honours_scaled_size sample_env \<and>
   heap (handleThumbnailReady sample_env 1 ''/cache/h.jpg'' False [] False
      (ThumbnailResponse_new sample_env 1 ''h'' ''/a.jpg'' ''medium''
         \<lparr>size_width = 64, size_height = 48\<rparr> ThumbnailProvider_init)) 1
     = Some ((new_response ''h'' ''/a.jpg'' ''medium'' \<lparr>size_width = 64, size_height = 48\<rparr>)
          \<lparr>m_image := QImage_pixels 64 48 [], m_finished := True\<rparr>) \<and>
   heap (ThumbnailResponse_new sample_env 2 ''d'' [] ''medium''
         \<lparr>size_width = 64, size_height = 48\<rparr> ThumbnailProvider_init) 2
     = Some ((new_response ''d'' [] ''medium'' \<lparr>size_width = 64, size_height = 48\<rparr>)
          \<lparr>m_image := QImage_pixels 64 48 [], m_finished := True\<rparr>) \<and>
   imageSize (QImage_pixels 64 48 []) = \<lparr>size_width = 64, size_height = 48\<rparr>"
proof -
  let ?rs = "\<lparr>size_width = 64, size_height = 48\<rparr>"
  let ?w = "ThumbnailResponse_new sample_env 1 ''h'' ''/a.jpg'' ''medium'' ?rs ThumbnailProvider_init"
  let ?r = "new_response ''h'' ''/a.jpg'' ''medium'' ?rs"
  let ?rdisk = "new_response ''d'' [] ''medium'' ?rs"
  let ?h = "handleThumbnailReady sample_env 1 ''/cache/h.jpg'' False [] False ?w"
  let ?n = "ThumbnailResponse_new sample_env 2 ''d'' [] ''medium'' ?rs ThumbnailProvider_init"
  have valid: "isValid ?rs" by (simp add: isValid_def)
  have rs: "m_requestedSize ?r = ?rs" by (simp add: new_response_def)
  have hon: "honours_scaled_size sample_env" by (rule honours_scaled_size_sample)
  have rd: "readImage sample_env ''/cache/h.jpg'' (Some ?rs) = (QImage_pixels 64 48 [], [])"
    "readImage sample_env ''/cache/d.jpg'' (Some ?rs) = (QImage_pixels 64 48 [], [])"
    by (simp_all add: sample_env_readImage)
  note t = path_decode_passes_target_dimension
  have live: "heap ?w 1 = Some ?r \<and> \<not> m_finished ?r \<and>
      \<not> (False \<and> ([]::qstring) \<noteq> []) \<and> ''/cache/h.jpg'' \<noteq> []"
    unfolding waiting_world by (simp add: new_response_def)
  have "heap ?h 1 = Some (read_outcome sample_env ''/cache/h.jpg''
            (if isValid (m_requestedSize ?r) then Some (m_requestedSize ?r) else None) ?r)"
    using t [where w = ?w and this = 1 and r = ?r and isPlaceholder = False
        and placeholderPayload = "[]" and path = "''/cache/h.jpg''" and e = sample_env
        and useOriginal = False] live by blast
  then have one: "heap ?h 1 = Some (read_outcome sample_env ''/cache/h.jpg'' (Some ?rs) ?r)"
    unfolding rs using valid by simp
  have disk: "\<not> hasCachedImage (cacheKeyOf ''d'' ''medium'') ThumbnailProvider_init \<and>
      getThumbnailPath sample_env ''d'' ''medium'' \<noteq> [] \<and>
      fileExists sample_env (getThumbnailPath sample_env ''d'' ''medium'')" by simp
  have "heap ?n 2 = Some (read_outcome sample_env (getThumbnailPath sample_env ''d'' ''medium'')
            (if isValid ?rs then Some ?rs else None) ?rdisk)"
    using t [where fileHash = "''d''" and sz = "''medium''" and w = ThumbnailProvider_init
        and e = sample_env and this = 2 and filePath = "[]" and requestedSize = ?rs] disk by blast
  then have two: "heap ?n 2 = Some (read_outcome sample_env
            (getThumbnailPath sample_env ''d'' ''medium'') (Some ?rs) ?rdisk)"
    using valid by simp
  have sized1: "hon' \<and> isValid (m_requestedSize ?r) \<and>
      heap ?w 1 = Some ?r \<and> \<not> m_finished ?r \<and>
      \<not> (False \<and> ([]::qstring) \<noteq> []) \<and> ''/cache/h.jpg'' \<noteq> [] \<and>
      \<not> isNull (fst (readImage sample_env ''/cache/h.jpg'' (Some (m_requestedSize ?r))))"
    if "hon'" for hon'
    using that live valid unfolding rs by (simp add: rd isNull_def)
  from t [where w = ?w and this = 1 and r = ?r and isPlaceholder = False
        and placeholderPayload = "[]" and path = "''/cache/h.jpg''" and e = sample_env
        and useOriginal = False] sized1 [OF hon]
  have three: "\<exists>r'. heap ?h 1 = Some r' \<and> m_finished r' \<and> imageSize (m_image r') = m_requestedSize ?r"
    by blast
  have sized2: "hon' \<and> isValid ?rs \<and>
      \<not> hasCachedImage (cacheKeyOf ''d'' ''medium'') ThumbnailProvider_init \<and>
      getThumbnailPath sample_env ''d'' ''medium'' \<noteq> [] \<and>
      fileExists sample_env (getThumbnailPath sample_env ''d'' ''medium'') \<and>
      \<not> isNull (fst (readImage sample_env (getThumbnailPath sample_env ''d'' ''medium'') (Some ?rs)))"
    if "hon'" for hon'
    using that disk valid by (simp add: rd isNull_def)
  from t [where fileHash = "''d''" and sz = "''medium''" and w = ThumbnailProvider_init
        and e = sample_env and this = 2 and filePath = "[]" and requestedSize = ?rs] sized2 [OF hon]
  have four: "\<exists>r'. heap ?n 2 = Some r' \<and> m_finished r' \<and> imageSize (m_image r') = ?rs"
    by blast
  have o1: "read_outcome sample_env ''/cache/h.jpg'' (Some ?rs) ?r
      = ?r\<lparr>m_image := QImage_pixels 64 48 [], m_finished := True\<rparr>"
    by (simp add: read_outcome_def rd isNull_def)
  have o2: "read_outcome sample_env (getThumbnailPath sample_env ''d'' ''medium'') (Some ?rs) ?rdisk
      = ?rdisk\<lparr>m_image := QImage_pixels 64 48 [], m_finished := True\<rparr>"
    by (simp add: read_outcome_def rd isNull_def)
  from three one o1 have "imageSize (QImage_pixels 64 48 []) = m_requestedSize ?r" by auto
  then have five: "imageSize (QImage_pixels 64 48 []) = ?rs" unfolding rs .
  show ?thesis using valid hon one two five unfolding o1 o2 by blast
qed

text \<open>
  Claim C6 as stated fails in both halves, for a waiting request with the valid requested
  size 64 by 48. Completed with a placeholder payload that decodes to 100 by 100, it is
  delivered the 100 by 100 image: the placeholder is larger than the target and is not
  scaled to it. Completed with the path of a file whose natural size is 10 by 10, it is
  delivered a 64 by 48 image: the path decode enlarges the source beyond its natural
  size.
\<close>

theorem target_dimension_counterexample:
  "isValid \<lparr>size_width = 64, size_height = 48\<rparr> \<and>
   loadFromData sample_env (fromBase64 sample_env ''big'') = QImage_pixels 100 100 [] \<and>
   heap (notifyThumbnailReady sample_env ''h'' ''medium'' [] True ''big'' False
      (ThumbnailResponse_new sample_env 1 ''h'' ''/a.jpg'' ''medium''
         \<lparr>size_width = 64, size_height = 48\<rparr> ThumbnailProvider_init)) 1
     = Some \<lparr>m_fileHash = ''h'', m_filePath = ''/a.jpg'', m_size = ''medium'',
             m_requestedSize = \<lparr>size_width = 64, size_height = 48\<rparr>,
             m_image = QImage_pixels 100 100 [], m_errorString = [], m_finished = True\<rparr> \<and>
   readImage sample_env ''/cache/h.jpg'' None = (QImage_pixels 10 10 [], []) \<and>
   heap (notifyThumbnailReady sample_env ''h'' ''medium'' ''/cache/h.jpg'' False [] False
      (ThumbnailResponse_new sample_env 1 ''h'' ''/a.jpg'' ''medium''
         \<lparr>size_width = 64, size_height = 48\<rparr> ThumbnailProvider_init)) 1
     = Some \<lparr>m_fileHash = ''h'', m_filePath = ''/a.jpg'', m_size = ''medium'',
             m_requestedSize = \<lparr>size_width = 64, size_height = 48\<rparr>,
             m_image = QImage_pixels 64 48 [], m_errorString = [], m_finished = True\<rparr>"
  unfolding waiting_world
  by (simp add: isValid_def notifyThumbnailReady_def handleThumbnailReady_def new_response_def
      loadFromBase64_def loadFromPath_def isNull_def finishWithImage_heap sample_env_readImage)

section \<open>C7: delivery and the cache\<close>

lemma finishWithImage_cached:
  assumes "heap w this = Some r" "1 \<le> cache_capacity w"
  shows "cached (finishWithImage this img w) (cacheKeyOf (m_fileHash r) (m_size r)) = Some img"
  using assms by (simp add: cached_def cache_capacity_def finishWithImage_cache cached_after_insert)

lemma loadFromPath_delivered:
  assumes live: "heap w this = Some r" and cap: "1 \<le> cache_capacity w"
    and fresh: "isNull (m_image r)"
    and d: "delivered (loadFromPath e this path w) this"
  shows "\<exists>r'. heap (loadFromPath e this path w) this = Some r' \<and>
           cached (loadFromPath e this path w) (cacheKeyOf (m_fileHash r) (m_size r)) = Some (m_image r')"
proof -
  let ?scaled = "if isValid (m_requestedSize r) then Some (m_requestedSize r) else None"
  obtain img err where rd: "readImage e path ?scaled = (img, err)" by (cases "readImage e path ?scaled")
  show ?thesis
  proof (cases "isNull img")
    case True
    then have "loadFromPath e this path w = finishWithError this err w"
      using live rd by (simp add: loadFromPath_def)
    with d live fresh show ?thesis by (simp add: delivered_def finishWithError_heap)
  next
    case False
    then have eq: "loadFromPath e this path w = finishWithImage this img w"
      using live rd by (simp add: loadFromPath_def)
    show ?thesis unfolding eq
      using finishWithImage_cached [OF live cap, of img] live by (simp add: finishWithImage_heap)
  qed
qed

lemma loadFromBase64_delivered:
  assumes live: "heap w this = Some r" and cap: "1 \<le> cache_capacity w"
    and fresh: "isNull (m_image r)"
    and d: "delivered (loadFromBase64 e this b64 w) this"
  shows "\<exists>r'. heap (loadFromBase64 e this b64 w) this = Some r' \<and>
           cached (loadFromBase64 e this b64 w) (cacheKeyOf (m_fileHash r) (m_size r)) = Some (m_image r')"
proof (cases "isNull (loadFromData e (fromBase64 e b64))")
  case True
  then have "loadFromBase64 e this b64 w = finishWithError this ''Failed to decode base64 image'' w"
    by (simp add: loadFromBase64_def)
  with d live fresh show ?thesis by (simp add: delivered_def finishWithError_heap)
next
  case False
  then have eq: "loadFromBase64 e this b64 w = finishWithImage this (loadFromData e (fromBase64 e b64)) w"
    by (simp add: loadFromBase64_def)
  show ?thesis unfolding eq
    using finishWithImage_cached [OF live cap] live by (simp add: finishWithImage_heap)
qed

text \<open>
  Claim C7 (delivered populates the cache), as amended. When the capacity of the cache is
  at least 1, every step that takes a request to the delivered state, in the constructor
  (cache hit or disk hit) or in \<open>handleThumbnailReady\<close> (generation completion), leaves the
  delivered image in the cache under the key of the request's hash and size. On a cache
  hit nothing is written: the entry is already there.
\<close>

theorem delivered_image_is_cached:
  assumes "1 \<le> cache_capacity w"
  shows "(delivered (ThumbnailResponse_new e this fileHash filePath sz requestedSize w) this \<longrightarrow>
            (\<exists>r'. heap (ThumbnailResponse_new e this fileHash filePath sz requestedSize w) this = Some r' \<and>
                  cached (ThumbnailResponse_new e this fileHash filePath sz requestedSize w)
                    (cacheKeyOf fileHash sz) = Some (m_image r'))) \<and>
         (heap w this = Some r \<and> \<not> m_finished r \<and> isNull (m_image r) \<and>
          delivered (handleThumbnailReady e this path isPlaceholder placeholderPayload useOriginal w) this \<longrightarrow>
            (\<exists>r'. heap (handleThumbnailReady e this path isPlaceholder placeholderPayload useOriginal w) this
                     = Some r' \<and>
                  cached (handleThumbnailReady e this path isPlaceholder placeholderPayload useOriginal w)
                    (cacheKeyOf (m_fileHash r) (m_size r)) = Some (m_image r')))"
proof (intro conjI impI)
  let ?new = "ThumbnailResponse_new e this fileHash filePath sz requestedSize w"
  let ?r0 = "new_response fileHash filePath sz requestedSize"
  let ?w0 = "w\<lparr>heap := (heap w)(this \<mapsto> ?r0)\<rparr>"
  let ?key = "cacheKeyOf fileHash sz"
  let ?path = "getThumbnailPath e fileHash sz"
  assume d: "delivered ?new this"
  have live0: "heap ?w0 this = Some ?r0" by simp
  have cap0: "1 \<le> cache_capacity ?w0" using assms by (simp add: cache_capacity_def)
  have fresh0: "isNull (m_image ?r0)" by (simp add: new_response_def isNull_def)
  have key0: "cacheKeyOf (m_fileHash ?r0) (m_size ?r0) = ?key" by (simp add: new_response_def)
  show "\<exists>r'. heap ?new this = Some r' \<and> cached ?new ?key = Some (m_image r')"
  proof (cases "hasCachedImage ?key w")
    case True
    then obtain img where img: "map_of (chain (m_imageCache w)) ?key = Some img"
      by (auto simp: hasCachedImage_def qcache_contains_def)
    then show ?thesis unfolding new_hit [OF True]
      by (simp add: cached_def getCachedImage_def qcache_object_def map_of_relink)
  next
    case miss: False
    show ?thesis
    proof (cases "?path \<noteq> [] \<and> fileExists e ?path")
      case True
      then have eq: "?new = loadFromPath e this ?path ?w0" using miss by (simp add: new_disk)
      from loadFromPath_delivered [OF live0 cap0 fresh0, of e ?path] d
      show ?thesis unfolding eq key0 by simp
    next
      case nodisk: False
      show ?thesis
      proof (cases "filePath = []")
        case True
        have "?new = finishWithError this ''Missing file path for thumbnail request'' ?w0"
          by (rule new_missing [OF miss nodisk True])
        with d show ?thesis
          by (simp add: delivered_def finishWithError_heap new_response_def isNull_def)
      next
        case False
        from d show ?thesis unfolding new_enqueue [OF miss nodisk False]
          by (simp add: delivered_def new_response_def)
      qed
    qed
  qed
next
  let ?h = "handleThumbnailReady e this path isPlaceholder placeholderPayload useOriginal w"
  assume a: "heap w this = Some r \<and> \<not> m_finished r \<and> isNull (m_image r) \<and> delivered ?h this"
  then have live: "heap w this = Some r" and nf: "\<not> m_finished r" and fresh: "isNull (m_image r)"
    and d: "delivered ?h this" by simp_all
  show "\<exists>r'. heap ?h this = Some r' \<and>
          cached ?h (cacheKeyOf (m_fileHash r) (m_size r)) = Some (m_image r')"
  proof (cases "isPlaceholder \<and> placeholderPayload \<noteq> []")
    case True
    then have eq: "?h = loadFromBase64 e this placeholderPayload w"
      using live nf by (simp add: handleThumbnailReady_def)
    from loadFromBase64_delivered [OF live assms fresh, of e placeholderPayload] d
    show ?thesis unfolding eq by simp
  next
    case np: False
    show ?thesis
    proof (cases "path \<noteq> []")
      case True
      then have eq: "?h = loadFromPath e this path w"
        using live nf np by (auto simp: handleThumbnailReady_def)
      from loadFromPath_delivered [OF live assms fresh, of e path] d
      show ?thesis unfolding eq by simp
    next
      case False
      then have "?h = finishWithError this ''No thumbnail available'' w"
        using live nf np by (auto simp: handleThumbnailReady_def)
      with d live fresh show ?thesis by (simp add: delivered_def finishWithError_heap)
    qed
  qed
qed

text \<open>
  A waiting request completed with a path, and a request that finds its artifact on disk,
  on a provider of default capacity.
\<close>

theorem delivered_image_is_cached_witness:
  "cached (handleThumbnailReady sample_env 1 ''/cache/h.jpg'' False [] False
      (ThumbnailResponse_new sample_env 1 ''h'' ''/a.jpg'' ''medium'' no_size ThumbnailProvider_init))
     ''h/medium'' = Some (QImage_pixels 10 10 []) \<and>
   cached (ThumbnailResponse_new sample_env 2 ''d'' [] ''medium'' no_size ThumbnailProvider_init)
     ''d/medium'' = Some (QImage_pixels 10 10 [])"
proof -
  let ?w = "ThumbnailResponse_new sample_env 1 ''h'' ''/a.jpg'' ''medium'' no_size ThumbnailProvider_init"
  let ?r = "new_response ''h'' ''/a.jpg'' ''medium'' no_size"
  let ?w' = "handleThumbnailReady sample_env 1 ''/cache/h.jpg'' False [] False ?w"
  have cap: "1 \<le> cache_capacity ?w" unfolding waiting_world by (simp add: cache_capacity_def)
  have live: "heap ?w 1 = Some ?r" unfolding waiting_world by simp
  have nf: "\<not> m_finished ?r" and fresh: "isNull (m_image ?r)"
    by (simp_all add: new_response_def isNull_def)
  have res: "heap ?w' 1 = Some (?r\<lparr>m_image := QImage_pixels 10 10 [], m_finished := True\<rparr>)"
    unfolding handleThumbnailReady_heap [OF live nf]
    by (simp add: read_outcome_def sample_env_readImage isNull_def isValid_def no_size_def
        new_response_def)
  then have d: "delivered ?w' 1" by (simp add: delivered_def isNull_def)
  have key: "cacheKeyOf (m_fileHash ?r) (m_size ?r) = ''h/medium''"
    by (simp add: cacheKeyOf_def new_response_def)
  from delivered_image_is_cached [OF cap, where e = sample_env and this = 1 and r = ?r
      and path = "''/cache/h.jpg''" and isPlaceholder = False and placeholderPayload = "[]"
      and useOriginal = False]
    live nf fresh d
  have "\<exists>r'. heap ?w' 1 = Some r' \<and> cached ?w' ''h/medium'' = Some (m_image r')"
    unfolding key by blast
  then have one: "cached ?w' ''h/medium'' = Some (QImage_pixels 10 10 [])" using res by auto
  let ?n = "ThumbnailResponse_new sample_env 2 ''d'' [] ''medium'' no_size ThumbnailProvider_init"
  let ?r0 = "new_response ''d'' [] ''medium'' no_size"
  have cap0: "1 \<le> cache_capacity ThumbnailProvider_init" by (simp add: cache_capacity_def)
  have disk: "getThumbnailPath sample_env ''d'' ''medium'' \<noteq> []"
    "fileExists sample_env (getThumbnailPath sample_env ''d'' ''medium'')" by simp_all
  have live0: "heap (ThumbnailProvider_init\<lparr>heap := (heap ThumbnailProvider_init)(2 \<mapsto> ?r0)\<rparr>) 2
      = Some ?r0" by simp
  have res0: "heap ?n 2 = Some (?r0\<lparr>m_image := QImage_pixels 10 10 [], m_finished := True\<rparr>)"
    unfolding new_disk [OF hasCachedImage_init disk] loadFromPath_heap [OF live0]
    by (simp add: read_outcome_def sample_env_readImage isNull_def isValid_def no_size_def
        new_response_def)
  then have d0: "delivered ?n 2" by (simp add: delivered_def isNull_def)
  have key0: "cacheKeyOf ''d'' ''medium'' = ''d/medium''" by (simp add: cacheKeyOf_def)
  from delivered_image_is_cached [OF cap0, where e = sample_env and this = 2 and fileHash = "''d''"
      and filePath = "[]" and sz = "''medium''" and requestedSize = no_size] d0
  have "\<exists>r'. heap ?n 2 = Some r' \<and> cached ?n ''d/medium'' = Some (m_image r')"
    unfolding key0 by blast
  then have two: "cached ?n ''d/medium'' = Some (QImage_pixels 10 10 [])" using res0 by auto
  show ?thesis using one two by blast
qed

text \<open>
  Claim C7 as stated fails for a cache of capacity 0: the request finds its artifact on
  disk and is delivered with the decoded image, and the cache does not hold its key
  afterwards.
\<close>

theorem delivered_without_caching_counterexample:
  "heap (run sample_env [SetCacheSize 0, RequestImageResponse 1 ''d/medium'' no_size]
           ThumbnailProvider_init) 1
     = Some \<lparr>m_fileHash = ''d'', m_filePath = [], m_size = ''medium'',
             m_requestedSize = no_size, m_image = QImage_pixels 10 10 [], m_errorString = [],
             m_finished = True\<rparr> \<and>
   \<not> hasCachedImage ''d/medium''
       (run sample_env [SetCacheSize 0, RequestImageResponse 1 ''d/medium'' no_size]
          ThumbnailProvider_init)"
proof -
  have p: "parse_request_id ''d/medium'' = (''d'', [], ''medium'')"
    by (simp add: parse_request_id_def value_at_def Let_def)
  let ?w0 = "setCacheSize 0 ThumbnailProvider_init"
  have w0: "?w0 = ThumbnailProvider_init\<lparr>m_imageCache := \<lparr>mx = 0, chain = []\<rparr>\<rparr>"
    by (simp add: setCacheSize_def qcache_setMaxCost_def qcache_trim_def trim_chain_take)
  have miss: "\<not> hasCachedImage (cacheKeyOf ''d'' ''medium'') ?w0"
    unfolding w0 by (simp add: hasCachedImage_def qcache_contains_def)
  have disk: "getThumbnailPath sample_env ''d'' ''medium'' \<noteq> []"
    "fileExists sample_env (getThumbnailPath sample_env ''d'' ''medium'')" by simp_all
  have fresh: "heap ?w0 1 = None" unfolding w0 by simp
  show ?thesis
    using fresh
    apply (simp add: run_def requestImageResponse_def p new_disk [OF miss disk])
    apply (simp add: w0 loadFromPath_def sample_env_readImage isValid_def no_size_def isNull_def
        new_response_def finishWithImage_heap hasCachedImage_def qcache_contains_def
        finishWithImage_cache qcache_insert_def qcache_remove_def unlink_key_def)
    done
qed

section \<open>C8: cancellation\<close>

text \<open>
  Claim C8 (no leak on cancel). Destroying a response that is not finished and waits
  under its hash removes exactly that response from the waiter set; if it was the only
  waiter the entry of the hash is dropped; no hash is left with an empty set; and once
  every waiter of the hash has been destroyed (in any order, among any other
  destructions) the hash has no entry, so a later notification for it leaves the state
  as it is and calls no response.
\<close>

theorem no_leak_on_cancel:
  assumes "registry_ok w" and "heap w this = Some r" and "\<not> m_finished r"
    and "m_pendingRequests w (m_fileHash r) = Some s" and "this \<in> set s"
  shows "waiters (ThumbnailResponse_delete this w) (m_fileHash r) = set s - {this} \<and>
         (set s = {this} \<longrightarrow> m_pendingRequests (ThumbnailResponse_delete this w) (m_fileHash r) = None) \<and>
         (\<forall>h. m_pendingRequests (ThumbnailResponse_delete this w) h \<noteq> Some []) \<and>
         (set s \<subseteq> set ds \<longrightarrow>
            m_pendingRequests (delete_all ds w) (m_fileHash r) = None \<and>
            notifyThumbnailReady e (m_fileHash r) sz path isPlaceholder placeholderPayload useOriginal
              (delete_all ds w) = delete_all ds w)"
proof (intro conjI impI allI)
  have ws: "waiters w (m_fileHash r) = set s" using assms(4) by (simp add: waiters_def)
  have ok1: "registry_ok (ThumbnailResponse_delete this w)" by (rule registry_ok_delete [OF assms(1)])
  show rem: "waiters (ThumbnailResponse_delete this w) (m_fileHash r) = set s - {this}"
    using waiters_delete [OF assms(1), of this "m_fileHash r"] ws by simp
  show "m_pendingRequests (ThumbnailResponse_delete this w) (m_fileHash r) = None" if "set s = {this}"
    using registry_ok_no_waiters [OF ok1, of "m_fileHash r"] rem that by simp
  show "m_pendingRequests (ThumbnailResponse_delete this w) h \<noteq> Some []" for h
    using ok1 unfolding registry_ok_def by auto
  have gone: "m_pendingRequests (delete_all ds w) (m_fileHash r) = None" if "set s \<subseteq> set ds"
    using registry_ok_no_waiters [OF registry_ok_delete_all [OF assms(1)], of ds "m_fileHash r"]
      waiters_delete_all [OF assms(1), of ds "m_fileHash r"] ws that by auto
  then show "m_pendingRequests (delete_all ds w) (m_fileHash r) = None" if "set s \<subseteq> set ds"
    using that by simp
  show "notifyThumbnailReady e (m_fileHash r) sz path isPlaceholder placeholderPayload useOriginal
              (delete_all ds w) = delete_all ds w" if "set s \<subseteq> set ds"
    using gone [OF that] by (rule notify_noop)
qed

text \<open>
  Two waiters for \<open>h\<close>: destroying the first leaves the second, destroying both makes a
  later notification a no-op. A single waiter: destroying it drops the entry of \<open>h\<close>.
\<close>

theorem no_leak_on_cancel_witness:
  "waiters (ThumbnailResponse_delete 1
      (ThumbnailResponse_new sample_env 2 ''h'' ''/a.jpg'' ''small'' no_size
        (ThumbnailResponse_new sample_env 1 ''h'' ''/a.jpg'' ''medium'' no_size ThumbnailProvider_init))) ''h''
     = {2} \<and>
   m_pendingRequests (delete_all [2, 1]
      (ThumbnailResponse_new sample_env 2 ''h'' ''/a.jpg'' ''small'' no_size
        (ThumbnailResponse_new sample_env 1 ''h'' ''/a.jpg'' ''medium'' no_size ThumbnailProvider_init))) ''h''
     = None \<and>
   notifyThumbnailReady sample_env ''h'' ''medium'' ''/cache/h.jpg'' False [] False
     (delete_all [2, 1]
      (ThumbnailResponse_new sample_env 2 ''h'' ''/a.jpg'' ''small'' no_size
        (ThumbnailResponse_new sample_env 1 ''h'' ''/a.jpg'' ''medium'' no_size ThumbnailProvider_init)))
     = delete_all [2, 1]
      (ThumbnailResponse_new sample_env 2 ''h'' ''/a.jpg'' ''small'' no_size
        (ThumbnailResponse_new sample_env 1 ''h'' ''/a.jpg'' ''medium'' no_size ThumbnailProvider_init)) \<and>
   m_pendingRequests (ThumbnailResponse_delete 1
      (ThumbnailResponse_new sample_env 1 ''h'' ''/a.jpg'' ''medium'' no_size ThumbnailProvider_init)) ''h''
     = None"
proof -
  let ?w1 = "ThumbnailResponse_new sample_env 1 ''h'' ''/a.jpg'' ''medium'' no_size ThumbnailProvider_init"
  let ?w = "ThumbnailResponse_new sample_env 2 ''h'' ''/a.jpg'' ''small'' no_size ?w1"
  let ?r = "new_response ''h'' ''/a.jpg'' ''medium'' no_size"
  have live: "heap ?w 1 = Some ?r" unfolding two_waiters by simp
  have nf: "\<not> m_finished ?r" by (simp add: new_response_def)
  have pend: "m_pendingRequests ?w (m_fileHash ?r) = Some [1, 2]"
    unfolding two_waiters by (simp add: new_response_def)
  have mem: "(1::nat) \<in> set [1, 2]" by simp
  have sub: "set [1, 2::nat] \<subseteq> set [2, 1]" by auto
  have h: "m_fileHash ?r = ''h''" by (simp add: new_response_def)
  from no_leak_on_cancel [OF registry_ok_two_waiters live nf pend mem,
      where ds = "[2, 1]" and e = sample_env and sz = "''medium''" and path = "''/cache/h.jpg''"
        and isPlaceholder = False and placeholderPayload = "[]" and useOriginal = False] sub
  have two: "waiters (ThumbnailResponse_delete 1 ?w) ''h'' = {2} \<and>
      m_pendingRequests (delete_all [2, 1] ?w) ''h'' = None \<and>
      notifyThumbnailReady sample_env ''h'' ''medium'' ''/cache/h.jpg'' False [] False
        (delete_all [2, 1] ?w) = delete_all [2, 1] ?w"
    unfolding h by auto
  have ok1: "registry_ok ?w1" by (rule registry_ok_new [OF registry_ok_init]) simp
  have live1: "heap ?w1 1 = Some ?r" unfolding waiting_world by simp
  have pend1: "m_pendingRequests ?w1 (m_fileHash ?r) = Some [1]"
    unfolding waiting_world by (simp add: new_response_def)
  have mem1: "(1::nat) \<in> set [1]" by simp
  have only: "set [1::nat] = {1}" by simp
  from no_leak_on_cancel [OF ok1 live1 nf pend1 mem1] only
  have "m_pendingRequests (ThumbnailResponse_delete 1 ?w1) ''h'' = None"
    unfolding h by blast
  with two show ?thesis by blast
qed

section \<open>C9: cache misses\<close>

text \<open>
  Claim C9 (cache miss at the public interface). For a key that is not in the cache
  \<open>getCachedImage\<close> returns the null image and leaves the state as it is;
  \<open>hasCachedImage\<close> is false for exactly the keys that have no entry; for a key that has
  one, \<open>getCachedImage\<close> returns the stored image. Neither call changes which image is
  stored under which key, nor the capacity: a hit only moves the entry to the front of
  the recency chain, and \<open>hasCachedImage\<close> returns no new state at all.
\<close>

theorem cache_miss_returns_null_image:
  "(\<not> hasCachedImage key w \<longrightarrow>
       fst (getCachedImage key w) = QImage_null \<and> snd (getCachedImage key w) = w) \<and>
   (hasCachedImage key w \<longrightarrow> cached w key = Some (fst (getCachedImage key w))) \<and>
   hasCachedImage key w = (key \<in> dom (cached w)) \<and>
   cached (snd (getCachedImage key w)) = cached w \<and>
   cache_capacity (snd (getCachedImage key w)) = cache_capacity w"
  by (cases "map_of (chain (m_imageCache w)) key")
     (auto simp: hasCachedImage_def getCachedImage_def qcache_contains_def qcache_object_def
        cached_def cache_capacity_def map_of_relink)

text \<open>
  A provider with one cached image: a key that misses and the key that hits.
\<close>

theorem cache_miss_returns_null_image_witness:
  "\<not> hasCachedImage ''x/medium'' (cacheImage ''a/small'' (QImage_pixels 4 4 []) ThumbnailProvider_init) \<and>
   fst (getCachedImage ''x/medium'' (cacheImage ''a/small'' (QImage_pixels 4 4 []) ThumbnailProvider_init))
     = QImage_null \<and>
   hasCachedImage ''a/small'' (cacheImage ''a/small'' (QImage_pixels 4 4 []) ThumbnailProvider_init) \<and>
   fst (getCachedImage ''a/small'' (cacheImage ''a/small'' (QImage_pixels 4 4 []) ThumbnailProvider_init))
     = QImage_pixels 4 4 []"
proof -
  let ?w = "cacheImage ''a/small'' (QImage_pixels 4 4 []) ThumbnailProvider_init"
  have miss: "\<not> hasCachedImage ''x/medium'' ?w"
    by (simp add: hasCachedImage_def qcache_contains_def cacheImage_def qcache_insert_def
        qcache_trim_def trim_chain_take unlink_key_def ThumbnailProvider_init_def
        DEFAULT_CACHE_SIZE_def)
  have hit: "hasCachedImage ''a/small'' ?w"
    by (simp add: hasCachedImage_def qcache_contains_def cacheImage_def qcache_insert_def
        qcache_trim_def trim_chain_take unlink_key_def ThumbnailProvider_init_def
        DEFAULT_CACHE_SIZE_def)
  have stored: "cached ?w ''a/small'' = Some (QImage_pixels 4 4 [])"
    by (simp add: cached_def cacheImage_def qcache_insert_def
        qcache_trim_def trim_chain_take unlink_key_def ThumbnailProvider_init_def
        DEFAULT_CACHE_SIZE_def)
  from cache_miss_returns_null_image [of "''x/medium''" ?w] miss
  have "fst (getCachedImage ''x/medium'' ?w) = QImage_null" by simp
  moreover from cache_miss_returns_null_image [of "''a/small''" ?w] hit stored
  have "fst (getCachedImage ''a/small'' ?w) = QImage_pixels 4 4 []" by simp
  ultimately show ?thesis using miss hit by simp
qed

section \<open>C10: request ids\<close>

lemma or_push_bit_4: "b < 16 \<Longrightarrow> or (push_bit 4 a) (b::nat) = a * 16 + b"
proof -
  assume "b < 16"
  then have b: "take_bit 4 b = b" by (simp add: take_bit_nat_eq_self)
  have "and (push_bit 4 a) (take_bit 4 b) = 0"
    by (rule bit_eqI) (auto simp: bit_simps)
  then have "push_bit 4 a + b = or (push_bit 4 a) b"
    using disjunctive_add_eq_or [of "push_bit 4 a" b] b by simp
  then show ?thesis by (simp add: push_bit_eq_mult)
qed

lemma below_16_cases:
  "d < 16 \<Longrightarrow> d = 0 \<or> d = 1 \<or> d = 2 \<or> d = 3 \<or> d = 4 \<or> d = 5 \<or> d = 6 \<or> d = 7 \<or> d = 8 \<or>
     d = 9 \<or> d = 10 \<or> d = 11 \<or> d = 12 \<or> d = 13 \<or> d = 14 \<or> d = (15::nat)"
  by arith

lemma hexValue_toHexUpper: "d < 16 \<Longrightarrow> hexValue (toHexUpper d) = d"
  by (drule below_16_cases) (auto simp: toHexUpper_def hexValue_def)

lemma toHexUpper_in_digits: "toHexUpper v \<in> set ''0123456789ABCDEF''"
  unfolding toHexUpper_def by (rule nth_mem) simp

lemma decode_escape:
  "char_of (or (push_bit 4 (hexValue (toHexUpper (of_char c div 16))))
               (hexValue (toHexUpper (of_char c mod 16)))) = c"
proof -
  have lt: "(of_char c :: nat) div 16 < 16"
    using nat_of_char_less_256 [of c] by (simp add: less_mult_imp_div_less)
  have "or (push_bit 4 (hexValue (toHexUpper (of_char c div 16))))
           (hexValue (toHexUpper (of_char c mod 16))) = (of_char c :: nat)"
    by (simp add: hexValue_toHexUpper lt or_push_bit_4)
  then show ?thesis by simp
qed

lemma fromPercentEncoding_plain:
  "c \<noteq> CHR ''%'' \<Longrightarrow> fromPercentEncoding (c # xs) = c # fromPercentEncoding xs"
  by (cases xs rule: fromPercentEncoding.cases) simp_all

lemma percent_reserved: "\<not> unreserved CHR ''%''" "\<not> unreserved CHR ''/''"
  by (simp_all add: unreserved_def)

lemma percent_round_trip: "fromPercentEncoding (toPercentEncoding s) = s"
proof (induction s)
  case Nil
  then show ?case by (simp add: toPercentEncoding_def)
next
  case (Cons c s)
  have unfold: "toPercentEncoding (c # s) =
      (if unreserved c then [c]
       else [CHR ''%'', toHexUpper (of_char c div 16), toHexUpper (of_char c mod 16)])
      @ toPercentEncoding s"
    by (simp add: toPercentEncoding_def)
  show ?case
  proof (cases "unreserved c")
    case True
    then have "c \<noteq> CHR ''%''" using percent_reserved by auto
    then show ?thesis using True Cons by (simp add: unfold fromPercentEncoding_plain)
  next
    case False
    then show ?thesis using Cons by (simp add: unfold decode_escape)
  qed
qed

lemma no_slash_in_encoding: "CHR ''/'' \<notin> set (toPercentEncoding s)"
proof (induction s)
  case Nil
  then show ?case by (simp add: toPercentEncoding_def)
next
  case (Cons c s)
  have unfold: "toPercentEncoding (c # s) =
      (if unreserved c then [c]
       else [CHR ''%'', toHexUpper (of_char c div 16), toHexUpper (of_char c mod 16)])
      @ toPercentEncoding s"
    by (simp add: toPercentEncoding_def)
  have hex: "toHexUpper v \<noteq> CHR ''/''" for v
    using toHexUpper_in_digits [of v] by auto
  have "CHR ''/'' \<notin> set (if unreserved c then [c]
       else [CHR ''%'', toHexUpper (of_char c div 16), toHexUpper (of_char c mod 16)])"
    using percent_reserved(2) hex [of "of_char c div 16"] hex [of "of_char c mod 16"]
    by (cases "unreserved c") auto
  then show ?case using Cons unfolding unfold by simp
qed

lemma split_char_first:
  "sep \<notin> set a \<Longrightarrow> split_char sep (a @ sep # rest) = a # split_char sep rest"
  by (induction a) auto

lemma split_char_nonempty: "split_char sep xs \<noteq> []"
  by (induction xs) (auto split: list.splits)

lemma indexOf_first:
  "ch \<notin> set a \<Longrightarrow> indexOf ch (a @ ch # rest) = int (length a)"
  by (induction a) (auto simp: Let_def)

lemma parse_token:
  assumes "CHR ''/'' \<notin> set identity" and "CHR ''|'' \<notin> set identity"
  shows "parse_request_id (identity @ ''|'' @ toPercentEncoding locator @ ''/'' @ sz) =
           (identity, locator, value_at (split_char CHR ''/'' sz) 0 ''medium'')"
proof -
  let ?enc = "toPercentEncoding locator"
  let ?seg = "identity @ CHR ''|'' # ?enc"
  have noslash: "CHR ''/'' \<notin> set ?seg" using assms(1) no_slash_in_encoding by simp
  have tok: "identity @ ''|'' @ ?enc @ ''/'' @ sz = ?seg @ CHR ''/'' # sz" by simp
  have parts: "split_char CHR ''/'' (identity @ ''|'' @ ?enc @ ''/'' @ sz)
      = ?seg # split_char CHR ''/'' sz"
    unfolding tok by (rule split_char_first [OF noslash])
  obtain p ps where sp: "split_char CHR ''/'' sz = p # ps"
    using split_char_nonempty [of "CHR ''/''" sz] by (cases "split_char CHR ''/'' sz") auto
  have idx: "indexOf CHR ''|'' ?seg = int (length identity)"
    by (rule indexOf_first [OF assms(2)])
  have dr: "drop (nat (int (length identity) + 1)) ?seg = ?enc"
    by (simp add: nat_add_distrib)
  show ?thesis
    unfolding parse_request_id_def parts
    by (simp add: value_at_def sp idx Let_def percent_round_trip dr del: drop_append)
qed

text \<open>
  Claim C10 (locator round trip in the request id), as amended. Percent-decoding inverts
  the percent-encoding of every locator. For every identity that contains neither \<open>/\<close>
  nor \<open>|\<close>, every locator and every size string, parsing the id made of the identity,
  \<open>|\<close>, the percent-encoded locator, \<open>/\<close> and the size gives back the identity as the hash
  and the locator as the file path, and the response that \<open>requestImageResponse\<close>
  constructs for it carries them as \<open>m_fileHash\<close> and \<open>m_filePath\<close>.
\<close>

theorem request_id_round_trip:
  assumes "CHR ''/'' \<notin> set identity" and "CHR ''|'' \<notin> set identity"
  shows "fromPercentEncoding (toPercentEncoding locator) = locator \<and>
         fst (parse_request_id (identity @ ''|'' @ toPercentEncoding locator @ ''/'' @ sz)) = identity \<and>
         fst (snd (parse_request_id (identity @ ''|'' @ toPercentEncoding locator @ ''/'' @ sz))) = locator \<and>
         (\<exists>r. heap (requestImageResponse e this
                      (identity @ ''|'' @ toPercentEncoding locator @ ''/'' @ sz) requestedSize w) this
                 = Some r \<and>
               m_fileHash r = identity \<and> m_filePath r = locator)"
proof -
  let ?sz = "value_at (split_char CHR ''/'' sz) 0 ''medium''"
  have p: "parse_request_id (identity @ ''|'' @ toPercentEncoding locator @ ''/'' @ sz)
      = (identity, locator, ?sz)"
    by (rule parse_token [OF assms])
  have "requestImageResponse e this
          (identity @ ''|'' @ toPercentEncoding locator @ ''/'' @ sz) requestedSize w
      = ThumbnailResponse_new e this identity locator ?sz requestedSize w"
    unfolding requestImageResponse_def p by simp
  then show ?thesis
    unfolding p
    using new_heap_this [of e this identity locator ?sz requestedSize w]
    by (simp add: percent_round_trip)
qed

text \<open>
  An id whose locator contains a space, slashes and a bar.
\<close>

theorem request_id_round_trip_witness:
  "fst (parse_request_id (''h1'' @ ''|'' @ toPercentEncoding ''/my pics/a|b.jpg'' @ ''/'' @ ''small'')) = ''h1'' \<and>
   fst (snd (parse_request_id (''h1'' @ ''|'' @ toPercentEncoding ''/my pics/a|b.jpg'' @ ''/'' @ ''small'')))
     = ''/my pics/a|b.jpg'' \<and>
   toPercentEncoding ''/my pics/a|b.jpg'' = ''%2Fmy%20pics%2Fa%7Cb.jpg''"
proof -
  have a: "CHR ''/'' \<notin> set ''h1''" "CHR ''|'' \<notin> set ''h1''" by simp_all
  have "toPercentEncoding ''/my pics/a|b.jpg'' = ''%2Fmy%20pics%2Fa%7Cb.jpg''"
    by (simp add: toPercentEncoding_def toHexUpper_def unreserved_def Let_def)
  with request_id_round_trip [OF a, of "''/my pics/a|b.jpg''" "''small''" sample_env 1 no_size
      ThumbnailProvider_init]
  show ?thesis by blast
qed

text \<open>
  Claim C10 as stated fails for an identity that contains \<open>|\<close>: for the identity \<open>a|b\<close> and
  the locator \<open>/x\<close> the response has the hash \<open>a\<close> and the file path \<open>b|/x\<close>.
\<close>

theorem request_id_round_trip_counterexample:
  "heap (requestImageResponse sample_env 1 (''a|b'' @ ''|'' @ toPercentEncoding ''/x'' @ ''/'' @ ''small'')
           no_size ThumbnailProvider_init) 1
     = Some \<lparr>m_fileHash = ''a'', m_filePath = ''b|/x'', m_size = ''small'',
             m_requestedSize = no_size, m_image = QImage_null, m_errorString = [],
             m_finished = False\<rparr>"
proof -
  have enc: "toPercentEncoding ''/x'' = ''%2Fx''"
    by (simp add: toPercentEncoding_def toHexUpper_def unreserved_def Let_def)
  have p: "parse_request_id (''a|b'' @ ''|'' @ toPercentEncoding ''/x'' @ ''/'' @ ''small'')
      = (''a'', ''b|/x'', ''small'')"
    unfolding enc
    by (simp add: parse_request_id_def value_at_def hexValue_def Let_def char_of_def bit_0)
  have nodisk: "\<not> (getThumbnailPath sample_env ''a'' ''small'' \<noteq> [] \<and>
      fileExists sample_env (getThumbnailPath sample_env ''a'' ''small''))" by simp
  have ne: "''b|/x'' \<noteq> []" by simp
  show ?thesis
    unfolding requestImageResponse_def p
    by (simp add: new_enqueue [OF hasCachedImage_init nodisk ne] new_response_def)
qed

end
